theory Spec2Isabelle
  imports Main "HOL-Library.Sublist"
begin

section \<open>MAPLINK: a favicon scraper (maplink.go)\<close>

text \<open>
  The program reads a list of page URLs from a file, fetches each page, scans the page
  text for favicon references with a regular expression, resolves each reference against
  the page URL, hashes the favicon bytes and records the result in an SQLite table.

  Go strings are byte sequences, so a Go \<^verbatim>\<open>string\<close> is a \<^typ>\<open>string\<close> here
  (a list of 8-bit characters). Go errors are values of the datatype \<open>error\<close>; a
  run-time panic is a value of the datatype \<open>panic\<close>.
\<close>

subsection \<open>Errors and panics\<close>

datatype error =
    TransportError string   \<comment> \<open>\<^verbatim>\<open>http.Get\<close> returned an error\<close>
  | StatusError int         \<comment> \<open>\<^verbatim>\<open>fmt.Errorf("error: status code %d", resp.StatusCode)\<close>\<close>
  | ReadError string        \<comment> \<open>reading a response body or the input file failed\<close>
  | ErrTooLong              \<comment> \<open>\<^verbatim>\<open>bufio.ErrTooLong\<close>: a line does not fit the scanner's buffer\<close>
  | OpenError string        \<comment> \<open>\<^verbatim>\<open>os.Open\<close> or \<^verbatim>\<open>sql.Open\<close> returned an error\<close>
  | StorageError string     \<comment> \<open>\<^verbatim>\<open>db.Exec\<close> returned an error\<close>

datatype panic = IndexOutOfRange

subsection \<open>The link resolver\<close>

text \<open>
  \<^verbatim>\<open>strings.HasPrefix(s, prefix)\<close> is
  \<^verbatim>\<open>len(s) >= len(prefix) && s[:len(prefix)] == prefix\<close>.
\<close>

definition HasPrefix :: "string \<Rightarrow> string \<Rightarrow> bool" where
  "HasPrefix s p = (length p \<le> length s \<and> take (length p) s = p)"

text \<open>
  \<^verbatim>\<open>
  func resolveLink(baseURL, link string) string {
      if strings.HasPrefix(link, "http://") || strings.HasPrefix(link, "https://") {
          return link
      }
      if link[0] == '/' {
          return baseURL + link
      }
      return baseURL + "/" + link
  }
  \<close>
  The index expression \<^verbatim>\<open>link[0]\<close> panics with an index-out-of-range run-time error
  when \<^verbatim>\<open>link\<close> is empty; the model returns \<open>Inl IndexOutOfRange\<close> there.
\<close>

definition resolveLink :: "string \<Rightarrow> string \<Rightarrow> panic + string" where
  "resolveLink baseURL link =
     (if HasPrefix link ''http://'' \<or> HasPrefix link ''https://'' then Inr link
      else (case link of
              [] \<Rightarrow> Inl IndexOutOfRange
            | c # _ \<Rightarrow> if c = CHR ''/'' then Inr (baseURL @ link)
                       else Inr (baseURL @ ''/'' @ link)))"

subsection \<open>The favicon link extractor\<close>

text \<open>
  \<^verbatim>\<open>
  re := regexp.MustCompile(`(?i)(https?://[^\"\s]*?/favicon\.ico|/favicon\.ico|favicon\.ico)`)
  matches := re.FindAllString(content, -1)
  \<close>
  The expression is modelled by a matcher for exactly this pattern, with the semantics of
  Go's \<^verbatim>\<open>regexp\<close> package: among the matches that start at the leftmost possible
  position, the one a backtracking search finds first (earlier alternatives first, the
  greedy \<^verbatim>\<open>s?\<close> preferring the \<^verbatim>\<open>s\<close>, the lazy \<^verbatim>\<open>*?\<close> preferring fewer repetitions).
  Every matcher takes the text at the current position and returns the text left after
  the match, or \<open>None\<close>.

  Under \<^verbatim>\<open>(?i)\<close> a literal matches the characters of its simple case-folding orbit.
  \<open>foldEq p c\<close>: the text byte \<open>c\<close> matches the (lower-case) pattern character \<open>p\<close>,
  for the pattern characters whose orbit is the two ASCII cases or the character alone.
\<close>

definition foldEq :: "char \<Rightarrow> char \<Rightarrow> bool" where
  "foldEq p c = (c = p \<or>
     (97 \<le> (of_char p :: nat) \<and> (of_char p :: nat) \<le> 122 \<and> (of_char c :: nat) + 32 = of_char p))"

fun matchLit :: "string \<Rightarrow> string \<Rightarrow> string option" where
  "matchLit [] s = Some s"
| "matchLit (p # ps) [] = None"
| "matchLit (p # ps) (c # cs) = (if foldEq p c then matchLit ps cs else None)"

text \<open>
  The orbit of \<^verbatim>\<open>s\<close> has three members: \<^verbatim>\<open>s\<close>, \<^verbatim>\<open>S\<close> and U+017F (LATIN SMALL
  LETTER LONG S), whose UTF-8 encoding is the two bytes C5 BF.
\<close>

definition matchFoldS :: "string \<Rightarrow> string option" where
  "matchFoldS s =
     (case s of
        c # cs \<Rightarrow>
          if c = CHR ''s'' \<or> c = CHR ''S'' then Some cs
          else (case cs of
                  d # ds \<Rightarrow> if c = CHR 0xC5 \<and> d = CHR 0xBF then Some ds else None
                | [] \<Rightarrow> None)
      | [] \<Rightarrow> None)"

text \<open>
  The class \<^verbatim>\<open>[^\"\s]\<close>: any character but the double quote and the white space of
  \<^verbatim>\<open>\s\<close> (tab, line feed, form feed, carriage return, space). The bytes of a
  multi-byte character are all outside the excluded set, so the class is read bytewise.
\<close>

definition inClass :: "char \<Rightarrow> bool" where
  "inClass c = (c \<notin> set [CHR 0x22, CHR 0x09, CHR 0x0A, CHR 0x0C, CHR 0x0D, CHR 0x20])"

text \<open>\<^verbatim>\<open>[^\"\s]*?/favicon\.ico\<close>: try the literal first, else consume one character of the class.\<close>

fun lazyStar :: "string \<Rightarrow> string option" where
  "lazyStar [] = matchLit ''/favicon.ico'' []"
| "lazyStar (c # cs) =
     (case matchLit ''/favicon.ico'' (c # cs) of
        Some rest \<Rightarrow> Some rest
      | None \<Rightarrow> if inClass c then lazyStar cs else None)"

definition matchTail :: "string \<Rightarrow> string option" where
  "matchTail s = (case matchLit ''://'' s of None \<Rightarrow> None | Some t \<Rightarrow> lazyStar t)"

text \<open>The first alternative, \<^verbatim>\<open>https?://[^\"\s]*?/favicon\.ico\<close>.\<close>

definition matchAbsolute :: "string \<Rightarrow> string option" where
  "matchAbsolute s =
     (case matchLit ''http'' s of
        None \<Rightarrow> None
      | Some r \<Rightarrow>
          (case (case matchFoldS r of None \<Rightarrow> None | Some r' \<Rightarrow> matchTail r') of
             Some rest \<Rightarrow> Some rest
           | None \<Rightarrow> matchTail r))"

text \<open>The whole pattern at one position: the three alternatives in their order.\<close>

definition matchHere :: "string \<Rightarrow> string option" where
  "matchHere s =
     (case matchAbsolute s of
        Some rest \<Rightarrow> Some rest
      | None \<Rightarrow>
          (case matchLit ''/favicon.ico'' s of
             Some rest \<Rightarrow> Some rest
           | None \<Rightarrow> matchLit ''favicon.ico'' s))"

text \<open>A match consumes at least the eleven characters of \<^verbatim>\<open>favicon.ico\<close>.\<close>

lemma matchLit_length: "matchLit p s = Some r \<Longrightarrow> length s = length p + length r"
  by (induction p s rule: matchLit.induct) (auto split: if_splits)

lemma matchFoldS_length: "matchFoldS s = Some r \<Longrightarrow> length r < length s"
  by (auto simp: matchFoldS_def split: list.splits if_splits)

lemma lazyStar_length: "lazyStar s = Some r \<Longrightarrow> length r + 12 \<le> length s"
  by (induction s rule: lazyStar.induct)
     (auto split: option.splits if_splits dest!: matchLit_length)

lemma matchTail_length: "matchTail s = Some r \<Longrightarrow> length r + 15 \<le> length s"
  by (auto simp: matchTail_def split: option.splits dest!: matchLit_length lazyStar_length)

lemma matchAbsolute_length: "matchAbsolute s = Some r \<Longrightarrow> length r + 19 \<le> length s"
  by (auto simp: matchAbsolute_def split: option.splits
           dest!: matchLit_length matchTail_length matchFoldS_length)

lemma matchHere_length: "matchHere s = Some r \<Longrightarrow> length r + 11 \<le> length s"
  by (auto simp: matchHere_def split: option.splits
           dest!: matchLit_length matchAbsolute_length)

text \<open>
  \<^verbatim>\<open>FindAllString(content, -1)\<close>: the successive non-overlapping matches, left to right.
  Where the pattern matches at the current position the match is the text consumed and
  the search goes on after it; elsewhere the search moves one character on. (No match is
  empty, so the rule of \<^verbatim>\<open>FindAll\<close> for empty matches never applies.)
\<close>

function findAll :: "string \<Rightarrow> string list" where
  "findAll [] = []"
| "findAll (c # cs) =
     (case matchHere (c # cs) of
        Some rest \<Rightarrow> take (length (c # cs) - length rest) (c # cs) # findAll rest
      | None \<Rightarrow> findAll cs)"
  by pat_completeness auto
termination
  by (relation "measure length") (auto dest: matchHere_length)

text \<open>
  \<^verbatim>\<open>
  seen := map[string]struct{}{}
  for _, match := range matches {
      if _, ok := seen[match]; !ok {
          seen[match] = struct{}{}
          links = append(links, match)
      }
  }
  return links
  \<close>
\<close>

fun dedupLoop :: "string list \<Rightarrow> (string \<rightharpoonup> unit) \<Rightarrow> string list \<Rightarrow> string list" where
  "dedupLoop [] seen links = links"
| "dedupLoop (m # ms) seen links =
     (if seen m = None then dedupLoop ms (seen(m \<mapsto> ())) (links @ [m])
      else dedupLoop ms seen links)"

definition extractFaviconLinks :: "string \<Rightarrow> string list" where
  "extractFaviconLinks content = dedupLoop (findAll content) Map.empty []"

text \<open>
  Notions the properties of the extractor are stated with. The position of the first
  occurrence of an element in a list, and the elements of a list in the order of their
  first occurrence.
\<close>

definition firstIndex :: "'a list \<Rightarrow> 'a \<Rightarrow> nat" where
  "firstIndex xs x = length (takeWhile (\<lambda>y. y \<noteq> x) xs)"

fun firstOccurrences :: "'a list \<Rightarrow> 'a list" where
  "firstOccurrences [] = []"
| "firstOccurrences (x # xs) = x # filter (\<lambda>y. y \<noteq> x) (firstOccurrences xs)"

text \<open>
  A favicon-pattern string, as a property of the whole string: it is \<^verbatim>\<open>http://\<close> or
  \<^verbatim>\<open>https://\<close> (up to the case folding of the pattern), then characters other than
  the double quote and white space, then \<^verbatim>\<open>/favicon.ico\<close> up to case; or it is
  \<^verbatim>\<open>/favicon.ico\<close> up to case; or it is \<^verbatim>\<open>favicon.ico\<close> up to case.
  \<open>schemeRest\<close> is what follows the scheme, if the string starts with one.
\<close>

definition schemeRest :: "string \<Rightarrow> string option" where
  "schemeRest m =
     (case matchLit ''http'' m of
        None \<Rightarrow> None
      | Some r \<Rightarrow>
          (case matchLit ''://'' r of
             Some t \<Rightarrow> Some t
           | None \<Rightarrow> (case matchFoldS r of None \<Rightarrow> None | Some r' \<Rightarrow> matchLit ''://'' r')))"

definition urlChar :: "char \<Rightarrow> bool" where
  "urlChar c =
     (c \<noteq> CHR 0x22 \<and> c \<noteq> CHR 0x20 \<and> c \<noteq> CHR 0x09 \<and> c \<noteq> CHR 0x0A \<and> c \<noteq> CHR 0x0C
      \<and> c \<noteq> CHR 0x0D)"

definition classThenFavicon :: "string \<Rightarrow> bool" where
  "classThenFavicon t =
     (12 \<le> length t \<and> list_all urlChar (take (length t - 12) t)
      \<and> matchLit ''/favicon.ico'' (drop (length t - 12) t) = Some [])"

definition matchesPattern :: "string \<Rightarrow> bool" where
  "matchesPattern m =
     ((case schemeRest m of None \<Rightarrow> False | Some t \<Rightarrow> classThenFavicon t)
      \<or> matchLit ''/favicon.ico'' m = Some []
      \<or> matchLit ''favicon.ico'' m = Some [])"

text \<open>
  The favicon-pattern occurrences of a text, read left to right without overlap: at each
  position where a favicon-pattern string starts, the shortest one that starts there is
  an occurrence and the reading goes on after it; elsewhere the reading moves one
  character on. \<open>prefixes\<close> lists the prefixes of a text from the shortest to the
  longest.
\<close>

lemma find_Some_mem: "find P xs = Some e \<Longrightarrow> e \<in> set xs \<and> P e"
  by (auto simp: find_Some_iff)

definition shortestPattern :: "string \<Rightarrow> string option" where
  "shortestPattern s = find matchesPattern (prefixes s)"

lemma matchesPattern_nonempty: "matchesPattern m \<Longrightarrow> m \<noteq> []"
  by (auto simp: matchesPattern_def schemeRest_def)

lemma shortestPattern_shorter:
  "shortestPattern (c # cs) = Some m \<Longrightarrow> length (drop (length m) (c # cs)) < length (c # cs)"
proof -
  assume "shortestPattern (c # cs) = Some m"
  then have "matchesPattern m"
    unfolding shortestPattern_def by (rule find_Some_mem [THEN conjunct2])
  then have "m \<noteq> []" by (rule matchesPattern_nonempty)
  then show ?thesis by (cases m) auto
qed

function patternOccurrences :: "string \<Rightarrow> string list" where
  "patternOccurrences [] = []"
| "patternOccurrences (c # cs) =
     (case shortestPattern (c # cs) of
        None \<Rightarrow> patternOccurrences cs
      | Some m \<Rightarrow> m # patternOccurrences (drop (length m) (c # cs)))"
  by pat_completeness auto
termination
  by (relation "measure length") (auto dest: shortestPattern_shorter)

text \<open>
  A reference that starts with \<^verbatim>\<open>http://\<close> or \<^verbatim>\<open>https://\<close> up to the case folding of
  the pattern.
\<close>

definition hasSchemeFold :: "string \<Rightarrow> bool" where
  "hasSchemeFold link = (schemeRest link \<noteq> None)"

text \<open>
  A page text with two URLs that a double quote or a space cuts short, and five
  occurrences of the pattern, three of them distinct.
\<close>

definition page1 :: string where
  "page1 = ''see \"http://a.com\" and http://b.org /favicon.ico HTTP://a.com/favicon.ico FAVICON.ICO /favicon.ico HTTP://a.com/favicon.ico''"


subsection \<open>Reading the list of URLs\<close>

text \<open>
  \<^verbatim>\<open>strings.HasSuffix(s, suffix)\<close> is
  \<^verbatim>\<open>len(s) >= len(suffix) && s[len(s)-len(suffix):] == suffix\<close>.
\<close>

definition HasSuffix :: "string \<Rightarrow> string \<Rightarrow> bool" where
  "HasSuffix s p = (length p \<le> length s \<and> drop (length s - length p) s = p)"

text \<open>
  \<^verbatim>\<open>strings.TrimSpace(s)\<close> removes the leading and the trailing white space of \<open>s\<close>,
  as \<^verbatim>\<open>unicode.IsSpace\<close> defines it: the characters U+0009 to U+000D, U+0020, U+0085,
  U+00A0, U+1680, U+2000 to U+200A, U+2028, U+2029, U+202F, U+205F and U+3000. On the
  bytes of a string a leading (trailing) white-space character is a prefix (suffix) that
  is the UTF-8 encoding of one of them; \<open>spaceEncodings\<close> lists the encodings.
\<close>

definition spaceEncodings :: "string list" where
  "spaceEncodings =
     [[CHR 0x09], [CHR 0x0A], [CHR 0x0B], [CHR 0x0C], [CHR 0x0D], [CHR 0x20],
      [CHR 0xC2, CHR 0x85], [CHR 0xC2, CHR 0xA0],
      [CHR 0xE1, CHR 0x9A, CHR 0x80],
      [CHR 0xE2, CHR 0x80, CHR 0x80], [CHR 0xE2, CHR 0x80, CHR 0x81],
      [CHR 0xE2, CHR 0x80, CHR 0x82], [CHR 0xE2, CHR 0x80, CHR 0x83],
      [CHR 0xE2, CHR 0x80, CHR 0x84], [CHR 0xE2, CHR 0x80, CHR 0x85],
      [CHR 0xE2, CHR 0x80, CHR 0x86], [CHR 0xE2, CHR 0x80, CHR 0x87],
      [CHR 0xE2, CHR 0x80, CHR 0x88], [CHR 0xE2, CHR 0x80, CHR 0x89],
      [CHR 0xE2, CHR 0x80, CHR 0x8A],
      [CHR 0xE2, CHR 0x80, CHR 0xA8], [CHR 0xE2, CHR 0x80, CHR 0xA9],
      [CHR 0xE2, CHR 0x80, CHR 0xAF],
      [CHR 0xE2, CHR 0x81, CHR 0x9F],
      [CHR 0xE3, CHR 0x80, CHR 0x80]]"

text \<open>The width in bytes of the white-space character the string starts (ends) with, or 0.\<close>

definition leadingSpace :: "string \<Rightarrow> nat" where
  "leadingSpace s = (case find (HasPrefix s) spaceEncodings of Some e \<Rightarrow> length e | None \<Rightarrow> 0)"

definition trailingSpace :: "string \<Rightarrow> nat" where
  "trailingSpace s = (case find (HasSuffix s) spaceEncodings of Some e \<Rightarrow> length e | None \<Rightarrow> 0)"

lemma spaceEncodings_nonempty: "e \<in> set spaceEncodings \<Longrightarrow> e \<noteq> []"
  by (auto simp: spaceEncodings_def)

lemma leadingSpace_pos: "0 < leadingSpace s \<Longrightarrow> length s - leadingSpace s < length s"
  by (cases s) (auto simp: leadingSpace_def HasPrefix_def split: option.splits
                     dest!: find_Some_mem dest: spaceEncodings_nonempty)

lemma trailingSpace_pos: "0 < trailingSpace s \<Longrightarrow> length s - trailingSpace s < length s"
  by (cases s) (auto simp: trailingSpace_def HasSuffix_def split: option.splits
                     dest!: find_Some_mem dest: spaceEncodings_nonempty)

function TrimLeft :: "string \<Rightarrow> string" where
  "TrimLeft s = (if 0 < leadingSpace s then TrimLeft (drop (leadingSpace s) s) else s)"
  by pat_completeness auto
termination
  by (relation "measure length") (auto intro: leadingSpace_pos)

function TrimRight :: "string \<Rightarrow> string" where
  "TrimRight s = (if 0 < trailingSpace s then TrimRight (take (length s - trailingSpace s) s) else s)"
  by pat_completeness auto
termination
  by (relation "measure length") (auto intro: trailingSpace_pos)

declare TrimLeft.simps [simp del] TrimRight.simps [simp del]

definition TrimSpace :: "string \<Rightarrow> string" where
  "TrimSpace s = TrimRight (TrimLeft s)"


text \<open>
  An opened file delivers its bytes and then the end of the file, or a read error.
\<close>

record osFile =
  contents :: string
  readErr :: "error option"

text \<open>
  \<^verbatim>\<open>bufio.NewScanner(file)\<close> splits with \<^verbatim>\<open>bufio.ScanLines\<close>: a token is the text up
  to the next line feed (or to the end of the input, for a last line without one), with
  one trailing carriage return dropped. The buffer of the scanner grows to
  \<^verbatim>\<open>bufio.MaxScanTokenSize\<close> bytes; a line that does not fit ends the scan with
  \<^verbatim>\<open>bufio.ErrTooLong\<close>.
\<close>

definition MaxScanTokenSize :: nat where
  "MaxScanTokenSize = 64 * 1024"

definition dropCR :: "string \<Rightarrow> string" where
  "dropCR d = (if d \<noteq> [] \<and> last d = CHR 0x0D then butlast d else d)"

datatype scanResult = ScanToken string string | ScanDone | ScanFail error

definition scanStep :: "string \<Rightarrow> scanResult" where
  "scanStep buf =
     (if buf = [] then ScanDone
      else let line = takeWhile (\<lambda>c. c \<noteq> CHR 0x0A) buf in
        if MaxScanTokenSize \<le> length line then ScanFail ErrTooLong
        else ScanToken (dropCR line) (drop (Suc (length line)) buf))"

lemma scanStep_shorter: "scanStep buf = ScanToken text rest \<Longrightarrow> length rest < length buf"
  by (cases buf) (auto simp: scanStep_def Let_def split: if_splits)

text \<open>
  \<^verbatim>\<open>
  var urls []string
  scanner := bufio.NewScanner(file)
  for scanner.Scan() {
      url := strings.TrimSpace(scanner.Text())
      if url != "" {
          urls = append(urls, url)
      }
  }
  if err := scanner.Err(); err != nil {
      return nil, err
  }
  return urls, nil
  \<close>
  \<open>scanLoop\<close> is the loop; its first argument is the input not yet scanned.
\<close>

function scanLoop :: "string \<Rightarrow> string list \<Rightarrow> error + string list" where
  "scanLoop buf urls =
     (case scanStep buf of
        ScanDone \<Rightarrow> Inr urls
      | ScanFail e \<Rightarrow> Inl e
      | ScanToken text rest \<Rightarrow>
          (let url = TrimSpace text in
           if url \<noteq> [] then scanLoop rest (urls @ [url]) else scanLoop rest urls))"
  by pat_completeness auto
termination
  by (relation "measure (\<lambda>(buf, urls). length buf)") (auto dest: scanStep_shorter)

declare scanLoop.simps [simp del]

text \<open>
  The file system is a function from file names to the outcome of \<^verbatim>\<open>os.Open\<close>.
  \<^verbatim>\<open>scanner.Err()\<close> is the error that stopped the scan: the too-long line, else the
  read error of the file.
\<close>

definition readURLsFromFile :: "(string \<Rightarrow> error + osFile) \<Rightarrow> string \<Rightarrow> error + string list" where
  "readURLsFromFile fs filename =
     (case fs filename of
        Inl err \<Rightarrow> Inl err
      | Inr file \<Rightarrow>
          (case scanLoop (contents file) [] of
             Inl err \<Rightarrow> Inl err
           | Inr urls \<Rightarrow>
               (case readErr file of Some err \<Rightarrow> Inl err | None \<Rightarrow> Inr urls)))"

text \<open>
  The lines of a text, for the properties of the reader: the pieces between line feeds
  (\<open>rawLines\<close>), each without its trailing carriage return (\<open>fileLines\<close>); and the
  error a scan of a file ends with, if any.
\<close>

function rawLines :: "string \<Rightarrow> string list" where
  "rawLines buf =
     (if buf = [] then []
      else takeWhile (\<lambda>c. c \<noteq> CHR 0x0A) buf
             # rawLines (drop (Suc (length (takeWhile (\<lambda>c. c \<noteq> CHR 0x0A) buf))) buf))"
  by pat_completeness auto
termination
  by (relation "measure length") auto

declare rawLines.simps [simp del]

definition fileLines :: "string \<Rightarrow> string list" where
  "fileLines buf = map dropCR (rawLines buf)"

definition scanError :: "osFile \<Rightarrow> error option" where
  "scanError file =
     (if list_ex (\<lambda>l. MaxScanTokenSize \<le> length l) (rawLines (contents file)) then Some ErrTooLong
      else readErr file)"

text \<open>An input file with a padded line, an empty line, a line of one tab and a last line without line feed.\<close>

definition file1 :: osFile where
  "file1 = \<lparr>contents = ''  http://a.com '' @ [CHR 0x0D, CHR 0x0A, CHR 0x0A, CHR 0x09, CHR 0x0A]
               @ ''http://b.org'', readErr = None\<rparr>"


definition fs1 :: "string \<Rightarrow> error + osFile" where
  "fs1 name = (if name = ''urls.txt'' then Inr file1 else Inl (OpenError ''no such file''))"

text \<open>A file of one line of 65536 bytes, and a file system that holds it under every name.\<close>

definition longLine :: string where
  "longLine = replicate MaxScanTokenSize CHR ''a''"

definition longFile :: osFile where
  "longFile = \<lparr>contents = longLine, readErr = None\<rparr>"

definition fsLong :: "string \<Rightarrow> error + osFile" where
  "fsLong name = Inr longFile"



subsection \<open>The page fetcher and the digest calculator\<close>

text \<open>
  What \<^verbatim>\<open>http.Get(url)\<close> returns: an error (its message) or a response with a status
  code and a body. Reading the body delivers its bytes and then the end of the stream, or
  a read error.
\<close>

record response =
  StatusCode :: int
  Body :: string
  BodyErr :: "string option"

text \<open>
  \<^verbatim>\<open>
  func fetchHTML(url string) (string, error) {
      resp, err := http.Get(url)
      if err != nil {
          return "", err
      }
      defer resp.Body.Close()
      if resp.StatusCode != http.StatusOK {
          return "", fmt.Errorf("error: status code %d", resp.StatusCode)
      }
      body, err := io.ReadAll(resp.Body)
      if err != nil {
          return "", err
      }
      return string(body), nil
  }
  \<close>
  The first argument is the network at the time of the call: what \<^verbatim>\<open>http.Get\<close> returns
  for each URL. \<^verbatim>\<open>http.StatusOK\<close> is 200.
\<close>

definition fetchHTML :: "(string \<Rightarrow> string + response) \<Rightarrow> string \<Rightarrow> error + string" where
  "fetchHTML get url =
     (case get url of
        Inl msg \<Rightarrow> Inl (TransportError msg)
      | Inr resp \<Rightarrow>
          if StatusCode resp \<noteq> 200 then Inl (StatusError (StatusCode resp))
          else (case BodyErr resp of
                  Some msg \<Rightarrow> Inl (ReadError msg)
                | None \<Rightarrow> Inr (Body resp)))"

text \<open>
  \<^verbatim>\<open>calculateHashes\<close> requests the URL twice and does not look at the status code. The
  body of the first response goes to MD5, the body of the second to SHA-256; an error of
  either request or of either read is returned. The two digest functions (with the
  hexadecimal encoding) are parameters, and so is the network: \<open>get 0\<close> answers the
  first request, \<open>get 1\<close> the second.
\<close>

definition calculateHashes ::
  "(string \<Rightarrow> string) \<Rightarrow> (string \<Rightarrow> string) \<Rightarrow> (nat \<Rightarrow> string \<Rightarrow> string + response) \<Rightarrow> string
     \<Rightarrow> error + string \<times> string" where
  "calculateHashes md5Sum sha256Sum get url =
     (case get 0 url of
        Inl msg \<Rightarrow> Inl (TransportError msg)
      | Inr resp \<Rightarrow>
          (case BodyErr resp of
             Some msg \<Rightarrow> Inl (ReadError msg)
           | None \<Rightarrow>
               (case get 1 url of
                  Inl msg \<Rightarrow> Inl (TransportError msg)
                | Inr resp2 \<Rightarrow>
                    (case BodyErr resp2 of
                       Some msg \<Rightarrow> Inl (ReadError msg)
                     | None \<Rightarrow> Inr (md5Sum (Body resp), sha256Sum (Body resp2))))))"

subsection \<open>The result store\<close>

text \<open>
  \<^verbatim>\<open>
  CREATE TABLE IF NOT EXISTS favicons (
      id INTEGER PRIMARY KEY AUTOINCREMENT,
      link TEXT UNIQUE,
      md5 TEXT,
      sha256 TEXT
  );
  \<close>
  A row of the table is a record; the database is the table, if it exists, with its rows
  in the order of insertion, and the counter of \<^verbatim>\<open>AUTOINCREMENT\<close>.
\<close>

record favicon =
  col_id :: nat
  col_link :: string
  col_md5 :: string
  col_sha256 :: string

record database =
  favicons :: "favicon list option"
  seq :: nat

text \<open>
  \<^verbatim>\<open>db.Exec\<close> returns an error when the storage fails (\<open>fault\<close>: disk, permissions,
  corruption) and leaves the database as it is then. Otherwise it runs the statement.
  \<^verbatim>\<open>CREATE TABLE IF NOT EXISTS\<close> creates the empty table unless the table exists.
\<close>

definition createTable :: "error option \<Rightarrow> database \<Rightarrow> error option \<times> database" where
  "createTable fault db =
     (case fault of
        Some err \<Rightarrow> (Some err, db)
      | None \<Rightarrow> (None, if favicons db = None then db\<lparr>favicons := Some []\<rparr> else db))"

text \<open>
  \<^verbatim>\<open>
  func saveToDatabase(db *sql.DB, link, md5Hash, sha256Hash string) error {
      _, err := db.Exec("INSERT OR IGNORE INTO favicons(link, md5, sha256) VALUES(?, ?, ?)",
                        link, md5Hash, sha256Hash)
      return err
  }
  \<close>
  With \<^verbatim>\<open>AUTOINCREMENT\<close> the statement first takes the next identifier, one more than
  the largest identifier the table has ever held (the counter kept in
  \<^verbatim>\<open>sqlite_sequence\<close>, or the largest \<^verbatim>\<open>id\<close> in the table if that is larger), and
  stores it as the new value of the counter. \<^verbatim>\<open>INSERT OR IGNORE\<close>: when the new row
  would violate the \<^verbatim>\<open>UNIQUE\<close> constraint on \<^verbatim>\<open>link\<close>, the row is skipped and the
  statement succeeds, the identifier taken for it staying used; otherwise the row is
  appended with that identifier. A statement on a table that does not exist fails.
\<close>

definition nextId :: "database \<Rightarrow> nat" where
  "nextId db =
     Suc (max (seq db)
            (case favicons db of None \<Rightarrow> 0 | Some rows \<Rightarrow> foldr (\<lambda>r. max (col_id r)) rows 0))"

definition saveToDatabase ::
  "error option \<Rightarrow> database \<Rightarrow> string \<Rightarrow> string \<Rightarrow> string \<Rightarrow> error option \<times> database" where
  "saveToDatabase fault db link md5Hash sha256Hash =
     (case fault of
        Some err \<Rightarrow> (Some err, db)
      | None \<Rightarrow>
          (case favicons db of
             None \<Rightarrow> (Some (StorageError ''no such table: favicons''), db)
           | Some rows \<Rightarrow>
               if \<exists>r \<in> set rows. col_link r = link then (None, db\<lparr>seq := nextId db\<rparr>)
               else (None, db\<lparr>favicons := Some (rows @
                       [\<lparr>col_id = nextId db, col_link = link,
                         col_md5 = md5Hash, col_sha256 = sha256Hash\<rparr>]),
                     seq := nextId db\<rparr>)))"

subsection \<open>The orchestrator\<close>

text \<open>
  A run is observed through its trace: the lines written to standard output and to
  standard error, and the operations called with their results, in order. The lines are
  the format strings of \<^verbatim>\<open>main\<close> with their arguments.
\<close>

datatype msg =
    Usage
  | ErrReadingURLs error
  | ErrOpeningDB error
  | ErrCreatingTable error
  | ProcessingURL string
  | ErrFetchingHTML error
  | NoLinksFound
  | ErrCalculatingHash string error
  | FaviconLine string string string
  | ErrSavingToDB string error

datatype event =
    Stdout msg
  | Stderr msg
  | ReadURLsFromFile string "error + string list"
  | SqlOpen "error option"
  | CreateTable "error option"
  | FetchHTML string "error + string"
  | CalculateHashes string "error + string \<times> string"
  | SaveToDatabase string string string "error option"
  | DbClose

text \<open>
  The environment of a run: the file system, the network, the digest functions, the
  outcome of \<^verbatim>\<open>sql.Open\<close>, the storage faults and the database file found on disk. The
  answer of the network and the storage fault may differ from one operation of the run
  to the next: \<open>httpGet\<close> and \<open>dbExec\<close> take the number of operations the run has
  performed so far (and \<open>httpGet\<close> the number of the request within the operation).
\<close>

record env =
  openFile :: "string \<Rightarrow> error + osFile"
  httpGet :: "nat \<Rightarrow> nat \<Rightarrow> string \<Rightarrow> string + response"
  md5Hex :: "string \<Rightarrow> string"
  sha256Hex :: "string \<Rightarrow> string"
  sqlOpen :: "error option"
  dbExec :: "nat \<Rightarrow> error option"
  diskDB :: database

text \<open>The state of a run: its trace, the number of operations performed, the database.\<close>

record run =
  trace :: "event list"
  step :: nat
  store :: database

definition emit :: "event list \<Rightarrow> run \<Rightarrow> run" where
  "emit es r = r\<lparr>trace := trace r @ es\<rparr>"

definition tick :: "run \<Rightarrow> run" where
  "tick r = r\<lparr>step := Suc (step r)\<rparr>"

text \<open>
  \<^verbatim>\<open>
  for _, link := range faviconLinks {
      fullURL := resolveLink(baseURL, link)
      md5Hash, sha256Hash, err := calculateHashes(fullURL)
      if err != nil {
          fmt.Fprintf(os.Stderr, "Error calculating hash for %s: %v\n", fullURL, err)
          continue
      }
      fmt.Printf("Favicon: %s | MD5: %s | SHA256: %s\n", fullURL, md5Hash, sha256Hash)
      err = saveToDatabase(db, fullURL, md5Hash, sha256Hash)
      if err != nil {
          fmt.Fprintf(os.Stderr, "Error saving to database for %s: %v\n", link, err)
      }
  }
  \<close>
  A panic of \<^verbatim>\<open>resolveLink\<close> ends the run.
\<close>

fun linkLoop :: "env \<Rightarrow> string \<Rightarrow> string list \<Rightarrow> run \<Rightarrow> panic + run" where
  "linkLoop e baseURL [] r = Inr r"
| "linkLoop e baseURL (link # links) r =
     (case resolveLink baseURL link of
        Inl p \<Rightarrow> Inl p
      | Inr fullURL \<Rightarrow>
          (case calculateHashes (md5Hex e) (sha256Hex e) (httpGet e (step r)) fullURL of
             Inl err \<Rightarrow>
               linkLoop e baseURL links
                 (emit [CalculateHashes fullURL (Inl err),
                        Stderr (ErrCalculatingHash fullURL err)] (tick r))
           | Inr (md5Hash, sha256Hash) \<Rightarrow>
               (let r1 = emit [CalculateHashes fullURL (Inr (md5Hash, sha256Hash)),
                               Stdout (FaviconLine fullURL md5Hash sha256Hash)] (tick r);
                    (err, db) = saveToDatabase (dbExec e (step r1)) (store r1)
                                  fullURL md5Hash sha256Hash;
                    r2 = emit [SaveToDatabase fullURL md5Hash sha256Hash err]
                           (tick (r1\<lparr>store := db\<rparr>))
                in case err of
                     Some err' \<Rightarrow> linkLoop e baseURL links (emit [Stderr (ErrSavingToDB link err')] r2)
                   | None \<Rightarrow> linkLoop e baseURL links r2)))"

text \<open>
  \<^verbatim>\<open>
  for _, baseURL := range urls {
      fmt.Printf("Processing URL: %s\n", baseURL)
      htmlContent, err := fetchHTML(baseURL)
      if err != nil {
          fmt.Fprintf(os.Stderr, "Error fetching HTML: %v\n", err)
          continue
      }
      faviconLinks := extractFaviconLinks(htmlContent)
      if len(faviconLinks) == 0 {
          fmt.Println("No favicon.ico links found.")
          continue
      }
      for _, link := range faviconLinks { ... }
  }
  \<close>
\<close>

fun urlLoop :: "env \<Rightarrow> string list \<Rightarrow> run \<Rightarrow> panic + run" where
  "urlLoop e [] r = Inr r"
| "urlLoop e (baseURL # urls) r =
     (case fetchHTML (httpGet e (step r) 0) baseURL of
        Inl err \<Rightarrow>
          urlLoop e urls
            (emit [Stdout (ProcessingURL baseURL), FetchHTML baseURL (Inl err),
                   Stderr (ErrFetchingHTML err)] (tick r))
      | Inr htmlContent \<Rightarrow>
          (let r1 = emit [Stdout (ProcessingURL baseURL), FetchHTML baseURL (Inr htmlContent)]
                      (tick r);
               faviconLinks = extractFaviconLinks htmlContent
           in if length faviconLinks = 0 then urlLoop e urls (emit [Stdout NoLinksFound] r1)
              else (case linkLoop e baseURL faviconLinks r1 of
                      Inl p \<Rightarrow> Inl p
                    | Inr r2 \<Rightarrow> urlLoop e urls r2)))"

text \<open>
  \<^verbatim>\<open>main\<close>, from the value of \<^verbatim>\<open>filename\<close> after \<^verbatim>\<open>flag.Parse()\<close> (the empty string
  when the flag \<^verbatim>\<open>-file\<close> is not given). The deferred \<^verbatim>\<open>db.Close()\<close> runs when
  \<^verbatim>\<open>main\<close> returns after the database was opened.
\<close>

definition main :: "env \<Rightarrow> string \<Rightarrow> panic + run" where
  "main e filename =
     (let r0 = \<lparr>trace = [], step = 0, store = diskDB e\<rparr> in
      if filename = [] then Inr (emit [Stdout Usage] r0)
      else
        (case readURLsFromFile (openFile e) filename of
           Inl err \<Rightarrow>
             Inr (emit [ReadURLsFromFile filename (Inl err), Stderr (ErrReadingURLs err)] r0)
         | Inr urls \<Rightarrow>
             (let r1 = emit [ReadURLsFromFile filename (Inr urls)] r0 in
              case sqlOpen e of
                Some err \<Rightarrow> Inr (emit [SqlOpen (Some err), Stderr (ErrOpeningDB err)] r1)
              | None \<Rightarrow>
                  (let (err, db) = createTable (dbExec e (step r1)) (store r1);
                       r2 = emit [SqlOpen None, CreateTable err] (tick (r1\<lparr>store := db\<rparr>))
                   in case err of
                        Some err' \<Rightarrow> Inr (emit [Stderr (ErrCreatingTable err'), DbClose] r2)
                      | None \<Rightarrow>
                          (case urlLoop e urls r2 of
                             Inl p \<Rightarrow> Inl p
                           | Inr r3 \<Rightarrow> Inr (emit [DbClose] r3))))))"

subsection \<open>Notions the properties are stated with\<close>

text \<open>
  The store: no two rows with the same link; the row of a link; the number of rows of a
  link; a sequence of calls of \<^verbatim>\<open>saveToDatabase\<close>, each with the storage fault it meets;
  the store right after the table was created.
\<close>

definition uniqueLinks :: "database \<Rightarrow> bool" where
  "uniqueLinks db = (case favicons db of None \<Rightarrow> True | Some rows \<Rightarrow> distinct (map col_link rows))"

definition lookupLink :: "database \<Rightarrow> string \<Rightarrow> favicon option" where
  "lookupLink db link =
     (case favicons db of None \<Rightarrow> None | Some rows \<Rightarrow> find (\<lambda>r. col_link r = link) rows)"

definition rowCount :: "database \<Rightarrow> string \<Rightarrow> nat" where
  "rowCount db link =
     (case favicons db of None \<Rightarrow> 0 | Some rows \<Rightarrow> length (filter (\<lambda>r. col_link r = link) rows))"

fun saveAll :: "database \<Rightarrow> (error option \<times> string \<times> string \<times> string) list \<Rightarrow> database" where
  "saveAll db [] = db"
| "saveAll db ((fault, link, md5Hash, sha256Hash) # calls) =
     saveAll (snd (saveToDatabase fault db link md5Hash sha256Hash)) calls"

definition emptyStore :: database where
  "emptyStore = snd (createTable None \<lparr>favicons = None, seq = 0\<rparr>)"

text \<open>
  The trace: an operation that returned an error; the line on standard error that
  reports it; a trace in which every failed operation is followed at once by its report.
\<close>

fun failed :: "event \<Rightarrow> bool" where
  "failed (ReadURLsFromFile f (Inl err)) = True"
| "failed (SqlOpen (Some err)) = True"
| "failed (CreateTable (Some err)) = True"
| "failed (FetchHTML u (Inl err)) = True"
| "failed (CalculateHashes u (Inl err)) = True"
| "failed (SaveToDatabase u m s (Some err)) = True"
| "failed _ = False"

fun reports :: "event \<Rightarrow> event \<Rightarrow> bool" where
  "reports (ReadURLsFromFile f (Inl err)) ev = (ev = Stderr (ErrReadingURLs err))"
| "reports (SqlOpen (Some err)) ev = (ev = Stderr (ErrOpeningDB err))"
| "reports (CreateTable (Some err)) ev = (ev = Stderr (ErrCreatingTable err))"
| "reports (FetchHTML u (Inl err)) ev = (ev = Stderr (ErrFetchingHTML err))"
| "reports (CalculateHashes u (Inl err)) ev = (ev = Stderr (ErrCalculatingHash u err))"
| "reports (SaveToDatabase u m s (Some err)) ev =
     (case ev of Stderr (ErrSavingToDB l err') \<Rightarrow> err' = err | _ \<Rightarrow> False)"
| "reports _ ev = False"

fun reported :: "event list \<Rightarrow> bool" where
  "reported [] = True"
| "reported [c] = (\<not> failed c)"
| "reported (c # ev # es) = ((failed c \<longrightarrow> reports c ev) \<and> reported (ev # es))"

text \<open>
  The URLs announced by a \<^verbatim>\<open>Processing URL\<close> line, the pages fetched with their text, the
  URLs given to \<^verbatim>\<open>calculateHashes\<close>, in the order of the trace; and the resolved
  references of a fetched page.
\<close>

fun processedOf :: "event \<Rightarrow> string list" where
  "processedOf (Stdout (ProcessingURL u)) = [u]"
| "processedOf _ = []"

fun fetchedOf :: "event \<Rightarrow> (string \<times> string) list" where
  "fetchedOf (FetchHTML u (Inr content)) = [(u, content)]"
| "fetchedOf _ = []"

fun hashedOf :: "event \<Rightarrow> string list" where
  "hashedOf (CalculateHashes u res) = [u]"
| "hashedOf _ = []"

definition processed :: "event list \<Rightarrow> string list" where
  "processed es = concat (map processedOf es)"

definition fetched :: "event list \<Rightarrow> (string \<times> string) list" where
  "fetched es = concat (map fetchedOf es)"

definition hashed :: "event list \<Rightarrow> string list" where
  "hashed es = concat (map hashedOf es)"

definition resolved :: "string \<Rightarrow> string \<Rightarrow> string list" where
  "resolved baseURL link = (case resolveLink baseURL link of Inr u \<Rightarrow> [u] | Inl p \<Rightarrow> [])"

definition targets :: "string \<times> string \<Rightarrow> string list" where
  "targets page = concat (map (resolved (fst page)) (extractFaviconLinks (snd page)))"

text \<open>The events of the links of one page, and the events of a list of URLs.\<close>

definition linkBlock :: "event list \<Rightarrow> bool" where
  "linkBlock es = (reported es \<and> processed es = [] \<and> fetched es = [])"

definition urlBlock :: "event list \<Rightarrow> string list \<Rightarrow> bool" where
  "urlBlock es urls =
     (reported es \<and> processed es = urls \<and> hashed es = concat (map targets (fetched es)))"

subsection \<open>Example inputs\<close>

text \<open>A server that answers 201 Created, with a body.\<close>

definition created :: response where
  "created = \<lparr>StatusCode = 201, Body = ''<link rel=icon href=/favicon.ico>'', BodyErr = None\<rparr>"

definition net201 :: "string \<Rightarrow> string + response" where
  "net201 url = Inr created"

text \<open>
  Three inserts, the third for the URL of the first with other digests; the store after
  the first two, and the store after all three.
\<close>

definition calls1 :: "(error option \<times> string \<times> string \<times> string) list" where
  "calls1 = [(None, ''http://a.com/favicon.ico'', ''m1'', ''s1''),
             (None, ''http://b.org/favicon.ico'', ''m2'', ''s2''),
             (None, ''http://a.com/favicon.ico'', ''m3'', ''s3'')]"

definition store1 :: database where
  "store1 =
     \<lparr>favicons = Some [\<lparr>col_id = 1, col_link = ''http://a.com/favicon.ico'', col_md5 = ''m1'', col_sha256 = ''s1''\<rparr>,
                       \<lparr>col_id = 2, col_link = ''http://b.org/favicon.ico'', col_md5 = ''m2'', col_sha256 = ''s2''\<rparr>],
      seq = 2\<rparr>"

definition store2 :: database where
  "store2 =
     \<lparr>favicons = Some [\<lparr>col_id = 1, col_link = ''http://a.com/favicon.ico'', col_md5 = ''m1'', col_sha256 = ''s1''\<rparr>,
                       \<lparr>col_id = 2, col_link = ''http://b.org/favicon.ico'', col_md5 = ''m2'', col_sha256 = ''s2''\<rparr>],
      seq = 3\<rparr>"

text \<open>
  A run over the two URLs of \<open>file1\<close>: the first page answers 404; the second page has
  three references, of which the first cannot be fetched, the second cannot be stored and
  the third is stored.
\<close>

definition page2 :: string where
  "page2 = ''<link href=\"/favicon.ico\"> favicon.ico HTTP://c.net/favicon.ico''"

definition sum1 :: "string \<Rightarrow> string" where
  "sum1 bytes = ''md5:'' @ bytes"

definition sum2 :: "string \<Rightarrow> string" where
  "sum2 bytes = ''sha256:'' @ bytes"

definition net1 :: "nat \<Rightarrow> nat \<Rightarrow> string \<Rightarrow> string + response" where
  "net1 n k url =
     (if n = 1 then Inr \<lparr>StatusCode = 404, Body = ''not found'', BodyErr = None\<rparr>
      else if n = 2 then Inr \<lparr>StatusCode = 200, Body = page2, BodyErr = None\<rparr>
      else if n = 3 then Inl ''connection refused''
      else Inr \<lparr>StatusCode = 200, Body = ''ICO'', BodyErr = None\<rparr>)"

definition exec1 :: "nat \<Rightarrow> error option" where
  "exec1 n = (if n = 5 then Some (StorageError ''disk full'') else None)"

definition env1 :: env where
  "env1 = \<lparr>openFile = fs1, httpGet = net1, md5Hex = sum1, sha256Hex = sum2,
            sqlOpen = None, dbExec = exec1, diskDB = \<lparr>favicons = None, seq = 0\<rparr>\<rparr>"


section \<open>Properties\<close>

subsection \<open>The link resolver\<close>

lemma HasPrefix_Nil [simp]: "HasPrefix s [] = True"
  by (simp add: HasPrefix_def)

lemma HasPrefix_Cons_Nil [simp]: "HasPrefix [] (p # ps) = False"
  by (simp add: HasPrefix_def)

lemma HasPrefix_Cons_Cons [simp]: "HasPrefix (c # cs) (p # ps) = (c = p \<and> HasPrefix cs ps)"
  by (auto simp: HasPrefix_def)

lemma HasPrefix_prefix: "HasPrefix s p = prefix p s"
  by (auto simp: HasPrefix_def prefix_def min_def) (metis append_take_drop_id)

text \<open>
  Claim C3. For every base URL and every non-empty Favicon Reference, the resolver
  returns the reference unchanged when it starts with \<^verbatim>\<open>http://\<close> or \<^verbatim>\<open>https://\<close>,
  base + reference when it starts with \<^verbatim>\<open>/\<close>, and base + \<^verbatim>\<open>/\<close> + reference
  otherwise; the three examples of the specification evaluate as it says.
\<close>

theorem resolveLink_rules:
  "link \<noteq> [] \<Longrightarrow>
     resolveLink base link =
       Inr (if prefix ''http://'' link \<or> prefix ''https://'' link then link
            else if prefix ''/'' link then base @ link
            else base @ ''/'' @ link)
     \<and> resolveLink ''http://a.com'' ''http://b.com/f.ico'' = Inr ''http://b.com/f.ico''
     \<and> resolveLink ''http://a.com'' ''/favicon.ico'' = Inr ''http://a.com/favicon.ico''
     \<and> resolveLink ''http://a.com'' ''favicon.ico'' = Inr ''http://a.com/favicon.ico''"
  by (cases link) (simp_all add: resolveLink_def HasPrefix_prefix)

theorem resolveLink_rules_witness:
  "''https://cdn.example/favicon.ico'' \<noteq> []
   \<and> resolveLink ''http://a.com'' ''https://cdn.example/favicon.ico''
       = Inr ''https://cdn.example/favicon.ico''
   \<and> resolveLink ''http://a.com'' ''/favicon.ico'' = Inr ''http://a.com/favicon.ico''"
  using resolveLink_rules [of "''https://cdn.example/favicon.ico''" "''http://a.com''"]
  by simp


subsection \<open>The favicon link extractor\<close>

lemmas re_eval = foldEq_def matchFoldS_def inClass_def matchTail_def matchAbsolute_def
  matchHere_def

lemma matchLit_suffix: "matchLit p s = Some r \<Longrightarrow> suffix r s"
  by (induction p s rule: matchLit.induct) (auto split: if_splits intro: suffix_ConsI)

lemma matchFoldS_suffix: "matchFoldS s = Some r \<Longrightarrow> suffix r s"
  by (auto simp: matchFoldS_def split: list.splits if_splits intro!: suffix_ConsI)

lemma lazyStar_suffix: "lazyStar s = Some r \<Longrightarrow> suffix r s"
  by (induction s rule: lazyStar.induct)
     (auto split: option.splits if_splits dest: matchLit_suffix intro: suffix_ConsI)

lemma matchTail_suffix: "matchTail s = Some r \<Longrightarrow> suffix r s"
  by (auto simp: matchTail_def split: option.splits
           dest!: matchLit_suffix lazyStar_suffix intro: suffix_order.trans)

lemma matchAbsolute_suffix: "matchAbsolute s = Some r \<Longrightarrow> suffix r s"
  by (auto simp: matchAbsolute_def split: option.splits
           dest!: matchLit_suffix matchTail_suffix matchFoldS_suffix
           intro: suffix_order.trans)

lemma matchHere_suffix: "matchHere s = Some r \<Longrightarrow> suffix r s"
  by (auto simp: matchHere_def split: option.splits
           dest: matchLit_suffix matchAbsolute_suffix)

lemma findAll_sublist: "m \<in> set (findAll s) \<Longrightarrow> sublist m s"
proof (induction s rule: findAll.induct)
  case 1
  then show ?case by simp
next
  case (2 c cs)
  show ?case
  proof (cases "matchHere (c # cs)")
    case None
    with 2 show ?thesis by (auto simp: sublist_Cons_right)
  next
    case (Some rest)
    with 2 have "m = take (length (c # cs) - length rest) (c # cs) \<or> sublist m rest"
      by auto
    then show ?thesis
    proof
      assume "m = take (length (c # cs) - length rest) (c # cs)"
      then show ?thesis using take_is_prefix prefix_imp_sublist by metis
    next
      assume "sublist m rest"
      moreover have "sublist rest (c # cs)"
        using matchHere_suffix [OF Some] by (rule suffix_imp_sublist)
      ultimately show ?thesis by (rule sublist_order.order.trans)
    qed
  qed
qed

lemma matchLit_cut: "matchLit p (m @ r) = Some (t @ r) \<Longrightarrow> matchLit p m = Some t"
proof (induction p arbitrary: m)
  case Nil
  then show ?case by simp
next
  case (Cons q ps)
  show ?case
  proof (cases m)
    case Nil
    with Cons.prems show ?thesis by (auto dest: matchLit_length)
  next
    case (Cons c m')
    with Cons.prems Cons.IH [of m'] show ?thesis by (auto split: if_splits)
  qed
qed

lemma matchLit_cut_all: "matchLit p (m @ r) = Some r \<Longrightarrow> matchLit p m = Some []"
  using matchLit_cut [of p m r "[]"] by simp

lemma matchFoldS_cut: "matchFoldS (m @ r) = Some (t @ r) \<Longrightarrow> matchFoldS m = Some t"
proof (cases m)
  case Nil
  assume "matchFoldS (m @ r) = Some (t @ r)"
  with Nil show ?thesis by (auto dest: matchFoldS_length)
next
  case (Cons c m')
  assume a: "matchFoldS (m @ r) = Some (t @ r)"
  show ?thesis
  proof (cases m')
    case Nil
    with a Cons show ?thesis
      by (cases r) (auto simp: matchFoldS_def split: if_splits)
  next
    case (Cons d m'')
    with a \<open>m = c # m'\<close> show ?thesis
      by (auto simp: matchFoldS_def split: if_splits)
  qed
qed

lemma matchFoldS_not_colon: "matchFoldS x = Some y \<Longrightarrow> matchLit ''://'' x = None"
  by (auto simp: matchFoldS_def foldEq_def split: list.splits if_splits)

lemma inClass_urlChar: "inClass c = urlChar c"
  by (auto simp: inClass_def urlChar_def)

lemma lazyStar_cut: "lazyStar (t @ r) = Some r \<Longrightarrow> classThenFavicon t"
proof (induction t)
  case Nil
  then have "lazyStar r = Some r" by simp
  then have "length r + 12 \<le> length r" by (rule lazyStar_length)
  then show ?case by simp
next
  case (Cons c t)
  show ?case
  proof (cases "matchLit ''/favicon.ico'' ((c # t) @ r)")
    case (Some rest)
    with Cons.prems have "matchLit ''/favicon.ico'' ((c # t) @ r) = Some r" by simp
    then have m: "matchLit ''/favicon.ico'' (c # t) = Some []" by (rule matchLit_cut_all)
    then have "length (c # t) = 12" by (drule_tac matchLit_length) simp
    with m show ?thesis by (simp add: classThenFavicon_def)
  next
    case None
    with Cons.prems have c: "urlChar c" and "lazyStar (t @ r) = Some r"
      by (auto simp: inClass_urlChar split: if_splits)
    with Cons.IH have "classThenFavicon t" by simp
    then have len: "12 \<le> length t" by (simp add: classThenFavicon_def)
    then have e: "Suc (length t) - 12 = Suc (length t - 12)" by arith
    have "take (length (c # t) - 12) (c # t) = c # take (length t - 12) t"
      and "drop (length (c # t) - 12) (c # t) = drop (length t - 12) t"
      by (simp_all only: length_Cons e take_Suc_Cons drop_Suc_Cons)
    with \<open>classThenFavicon t\<close> c show ?thesis
      by (simp add: classThenFavicon_def)
  qed
qed

lemma suffix_appendE: "suffix r s \<Longrightarrow> \<exists>m. s = m @ r"
  by (auto simp: suffix_def)

lemma matchTail_cut:
  assumes "matchTail (x @ r) = Some r"
  shows "\<exists>t. matchLit ''://'' x = Some t \<and> classThenFavicon t"
proof -
  from assms obtain u where u: "matchLit ''://'' (x @ r) = Some u" and l: "lazyStar u = Some r"
    by (auto simp: matchTail_def split: option.splits)
  from l have "suffix r u" by (rule lazyStar_suffix)
  then obtain t where t: "u = t @ r" by (auto simp: suffix_def)
  from u t have "matchLit ''://'' x = Some t" by (auto intro: matchLit_cut)
  moreover from l t have "classThenFavicon t" by (auto intro: lazyStar_cut)
  ultimately show ?thesis by blast
qed

lemma matchAbsolute_cut:
  assumes "matchAbsolute (m @ r) = Some r"
  shows "\<exists>t. schemeRest m = Some t \<and> classThenFavicon t"
proof -
  from assms obtain r0 where r0: "matchLit ''http'' (m @ r) = Some r0"
    and alt: "(\<exists>r1. matchFoldS r0 = Some r1 \<and> matchTail r1 = Some r) \<or> matchTail r0 = Some r"
    by (auto simp: matchAbsolute_def split: option.splits)
  from alt have "suffix r r0"
    by (auto dest!: matchTail_suffix dest: matchFoldS_suffix intro: suffix_order.trans)
  then obtain x where x: "r0 = x @ r" by (auto simp: suffix_def)
  from r0 x have h: "matchLit ''http'' m = Some x" by (auto intro: matchLit_cut)
  from alt show ?thesis
  proof
    assume "\<exists>r1. matchFoldS r0 = Some r1 \<and> matchTail r1 = Some r"
    then obtain r1 where f: "matchFoldS r0 = Some r1" and t1: "matchTail r1 = Some r" by blast
    from t1 have "suffix r r1" by (rule matchTail_suffix)
    then obtain y where y: "r1 = y @ r" by (auto simp: suffix_def)
    from f x y have fy: "matchFoldS x = Some y" by (auto intro: matchFoldS_cut)
    from t1 y obtain t where t: "matchLit ''://'' y = Some t" "classThenFavicon t"
      using matchTail_cut by blast
    from fy have "matchLit ''://'' x = None" by (rule matchFoldS_not_colon)
    with h fy t show ?thesis by (simp add: schemeRest_def)
  next
    assume "matchTail r0 = Some r"
    with x obtain t where t: "matchLit ''://'' x = Some t" "classThenFavicon t"
      using matchTail_cut by blast
    with h show ?thesis by (simp add: schemeRest_def)
  qed
qed

lemma matchHere_matchesPattern:
  assumes "matchHere s = Some r"
  shows "matchesPattern (take (length s - length r) s)"
proof -
  from assms have "suffix r s" by (rule matchHere_suffix)
  then obtain m where s: "s = m @ r" by (auto simp: suffix_def)
  then have m: "take (length s - length r) s = m" by simp
  from assms s have "matchAbsolute (m @ r) = Some r
      \<or> matchLit ''/favicon.ico'' (m @ r) = Some r \<or> matchLit ''favicon.ico'' (m @ r) = Some r"
    by (auto simp: matchHere_def split: option.splits)
  then have "matchesPattern m"
    by (auto simp: matchesPattern_def dest: matchAbsolute_cut matchLit_cut_all)
  with m show ?thesis by simp
qed

lemma findAll_matchesPattern: "m \<in> set (findAll s) \<Longrightarrow> matchesPattern m"
proof (induction s rule: findAll.induct)
  case 1
  then show ?case by simp
next
  case (2 c cs)
  then show ?case
    by (cases "matchHere (c # cs)") (auto dest: matchHere_matchesPattern)
qed

lemma findAll_length: "m \<in> set (findAll s) \<Longrightarrow> 11 \<le> length m"
proof (induction s rule: findAll.induct)
  case 1
  then show ?case by simp
next
  case (2 c cs)
  then show ?case
    by (cases "matchHere (c # cs)") (auto dest: matchHere_length)
qed

lemma firstOccurrences_filter:
  "filter P (firstOccurrences xs) = firstOccurrences (filter P xs)"
proof (induction xs)
  case Nil
  then show ?case by simp
next
  case (Cons x xs)
  show ?case
  proof (cases "P x")
    case True
    have "filter P (filter (\<lambda>y. y \<noteq> x) (firstOccurrences xs))
            = filter (\<lambda>y. y \<noteq> x) (filter P (firstOccurrences xs))"
      by (simp add: conj_commute)
    with True Cons.IH show ?thesis by simp
  next
    case False
    have "filter P (filter (\<lambda>y. y \<noteq> x) (firstOccurrences xs)) = filter P (firstOccurrences xs)"
      using False by (auto intro: filter_cong)
    with False Cons.IH show ?thesis by simp
  qed
qed

lemma set_firstOccurrences [simp]: "set (firstOccurrences xs) = set xs"
  by (induction xs) auto

lemma distinct_firstOccurrences [simp]: "distinct (firstOccurrences xs)"
  by (induction xs) auto

lemma length_firstOccurrences: "length (firstOccurrences xs) = card (set xs)"
  using distinct_card [OF distinct_firstOccurrences, of xs] by simp

lemma firstIndex_Cons:
  "firstIndex (x # xs) y = (if y = x then 0 else Suc (firstIndex xs y))"
  by (auto simp: firstIndex_def)

lemma sorted_firstOccurrences:
  "sorted_wrt (\<lambda>a b. firstIndex xs a < firstIndex xs b) (firstOccurrences xs)"
proof (induction xs)
  case Nil
  then show ?case by simp
next
  case (Cons x xs)
  let ?L = "filter (\<lambda>y. y \<noteq> x) (firstOccurrences xs)"
  have "sorted_wrt (\<lambda>a b. firstIndex xs a < firstIndex xs b) ?L"
    using Cons.IH by (rule sorted_wrt_filter)
  then have tl: "sorted_wrt (\<lambda>a b. firstIndex (x # xs) a < firstIndex (x # xs) b) ?L"
    by (rule sorted_wrt_mono_rel [rotated]) (auto simp: firstIndex_Cons)
  have hd: "\<forall>y \<in> set ?L. firstIndex (x # xs) x < firstIndex (x # xs) y"
    by (auto simp: firstIndex_Cons)
  show ?case
    unfolding firstOccurrences.simps sorted_wrt.simps using hd tl by blast
qed

lemma dedupLoop_firstOccurrences:
  "dedupLoop ms seen links = links @ firstOccurrences (filter (\<lambda>m. seen m = None) ms)"
proof (induction ms arbitrary: seen links)
  case Nil
  then show ?case by simp
next
  case (Cons m ms)
  show ?case
  proof (cases "seen m = None")
    case True
    have F: "filter (\<lambda>x. (seen(m \<mapsto> ())) x = None) ms
            = filter (\<lambda>y. y \<noteq> m) (filter (\<lambda>x. seen x = None) ms)"
      by (induction ms) auto
    have "dedupLoop (m # ms) seen links = dedupLoop ms (seen(m \<mapsto> ())) (links @ [m])"
      using True by simp
    also have "\<dots> = (links @ [m])
        @ firstOccurrences (filter (\<lambda>x. (seen(m \<mapsto> ())) x = None) ms)"
      by (rule Cons.IH)
    also have "\<dots> = (links @ [m])
        @ filter (\<lambda>y. y \<noteq> m) (firstOccurrences (filter (\<lambda>x. seen x = None) ms))"
      unfolding F firstOccurrences_filter ..
    also have "\<dots> = links @ firstOccurrences (filter (\<lambda>x. seen x = None) (m # ms))"
      using True by simp
    finally show ?thesis .
  next
    case False
    with Cons.IH [of seen links] show ?thesis by simp
  qed
qed

lemma extractFaviconLinks_firstOccurrences:
  "extractFaviconLinks content = firstOccurrences (findAll content)"
  by (simp add: extractFaviconLinks_def dedupLoop_firstOccurrences)


lemma findAll_page1: "findAll page1 =
  [''/favicon.ico'', ''HTTP://a.com/favicon.ico'', ''FAVICON.ICO'', ''/favicon.ico'',
   ''HTTP://a.com/favicon.ico'']"
  by (simp add: page1_def re_eval)

lemma extractFaviconLinks_nonempty: "m \<in> set (extractFaviconLinks content) \<Longrightarrow> m \<noteq> []"
  using findAll_length [of m content]
  by (auto simp: extractFaviconLinks_firstOccurrences)

text \<open>
  The search of the extractor finds the favicon-pattern occurrences: where a pattern
  string starts, the matcher consumes the shortest one, and nowhere else does it match.
\<close>

lemma matchLit_append: "matchLit p m = Some t \<Longrightarrow> matchLit p (m @ r) = Some (t @ r)"
  by (induction p m rule: matchLit.induct) (auto split: if_splits)

lemma matchFoldS_append: "matchFoldS m = Some t \<Longrightarrow> matchFoldS (m @ r) = Some (t @ r)"
  by (auto simp: matchFoldS_def split: list.splits if_splits)

lemma lazyStar_complete:
  "classThenFavicon t \<Longrightarrow> \<exists>r'. lazyStar (t @ r) = Some r' \<and> length r \<le> length r'"
proof (induction t)
  case Nil
  then show ?case by (simp add: classThenFavicon_def)
next
  case (Cons c t)
  from Cons.prems have len: "12 \<le> length (c # t)" by (simp add: classThenFavicon_def)
  show ?case
  proof (cases "matchLit ''/favicon.ico'' ((c # t) @ r)")
    case (Some rest)
    then have "length ((c # t) @ r) = 12 + length rest" by (drule_tac matchLit_length) simp
    with len have "length r \<le> length rest" by simp
    with Some show ?thesis by simp
  next
    case None
    have "length (c # t) \<noteq> 12"
    proof
      assume "length (c # t) = 12"
      with Cons.prems have "matchLit ''/favicon.ico'' (c # t) = Some []"
        by (simp add: classThenFavicon_def)
      then have "matchLit ''/favicon.ico'' ((c # t) @ r) = Some ([] @ r)"
        by (rule matchLit_append)
      with None show False by simp
    qed
    with len have len': "12 \<le> length t" by simp
    then have e: "Suc (length t) - 12 = Suc (length t - 12)" by arith
    have tk: "take (length (c # t) - 12) (c # t) = c # take (length t - 12) t"
      and dr: "drop (length (c # t) - 12) (c # t) = drop (length t - 12) t"
      by (simp_all only: length_Cons e take_Suc_Cons drop_Suc_Cons)
    from Cons.prems have c: "urlChar c" and "classThenFavicon t"
      unfolding classThenFavicon_def tk dr using len' by simp_all
    with Cons.IH obtain r' where "lazyStar (t @ r) = Some r'" "length r \<le> length r'"
      by blast
    with None c show ?thesis by (simp add: inClass_urlChar)
  qed
qed

lemma matchLit_first: "matchLit (p # ps) s = Some t \<Longrightarrow> \<exists>c cs. s = c # cs \<and> foldEq p c"
  by (cases s) (auto split: if_splits)

lemma matchHere_complete:
  assumes "matchesPattern m"
  shows "\<exists>r'. matchHere (m @ q) = Some r' \<and> length q \<le> length r'"
proof -
  from assms consider
      (abs) t where "schemeRest m = Some t" "classThenFavicon t"
    | (root) "matchLit ''/favicon.ico'' m = Some []"
    | (bare) "matchLit ''favicon.ico'' m = Some []"
    by (auto simp: matchesPattern_def split: option.splits)
  then show ?thesis
  proof cases
    case abs
    from abs(1) obtain x where x: "matchLit ''http'' m = Some x"
      by (auto simp: schemeRest_def split: option.splits)
    then have hx: "matchLit ''http'' (m @ q) = Some (x @ q)" by (rule matchLit_append)
    from lazyStar_complete [OF abs(2), of q]
    obtain r' where r': "lazyStar (t @ q) = Some r'" "length q \<le> length r'" by blast
    show ?thesis
    proof (cases "matchLit ''://'' x")
      case (Some t')
      with abs(1) x have "t' = t" by (simp add: schemeRest_def)
      with Some have c: "matchLit ''://'' (x @ q) = Some (t @ q)" by (auto intro: matchLit_append)
      from Some obtain d ds where "x = d # ds" "foldEq CHR '':'' d"
        using matchLit_first [of "CHR '':''" "''//''" x t'] by auto
      then have "matchFoldS (x @ q) = None"
        by (auto simp: matchFoldS_def foldEq_def split: list.splits)
      with hx c r' have "matchAbsolute (m @ q) = Some r'"
        by (simp add: matchAbsolute_def matchTail_def)
      with r' show ?thesis by (simp add: matchHere_def)
    next
      case None
      with abs(1) x obtain y where y: "matchFoldS x = Some y" "matchLit ''://'' y = Some t"
        by (auto simp: schemeRest_def split: option.splits)
      then have "matchFoldS (x @ q) = Some (y @ q)" "matchLit ''://'' (y @ q) = Some (t @ q)"
        by (auto intro: matchFoldS_append matchLit_append)
      with hx r' have "matchAbsolute (m @ q) = Some r'"
        by (simp add: matchAbsolute_def matchTail_def)
      with r' show ?thesis by (simp add: matchHere_def)
    qed
  next
    case root
    then obtain d ds where m: "m = d # ds" "foldEq CHR ''/'' d"
      using matchLit_first [of "CHR ''/''" "''favicon.ico''" m "[]"] by auto
    then have "matchAbsolute (m @ q) = None"
      by (auto simp: matchAbsolute_def foldEq_def)
    moreover from root have "matchLit ''/favicon.ico'' (m @ q) = Some ([] @ q)"
      by (rule matchLit_append)
    ultimately show ?thesis by (simp add: matchHere_def)
  next
    case bare
    then obtain d ds where m: "m = d # ds" "foldEq CHR ''f'' d"
      using matchLit_first [of "CHR ''f''" "''avicon.ico''" m "[]"] by auto
    then have "matchAbsolute (m @ q) = None" "matchLit ''/favicon.ico'' (m @ q) = None"
      by (auto simp: matchAbsolute_def foldEq_def)
    moreover from bare have "matchLit ''favicon.ico'' (m @ q) = Some ([] @ q)"
      by (rule matchLit_append)
    ultimately show ?thesis by (simp add: matchHere_def)
  qed
qed

lemma find_map_Cons:
  "find P (map f xs) = map_option f (find (\<lambda>x. P (f x)) xs)"
  by (induction xs) auto

lemma find_prefixes_min:
  "find P (prefixes s) = Some m \<Longrightarrow> prefix m' s \<Longrightarrow> P m' \<Longrightarrow> length m \<le> length m'"
proof (induction s arbitrary: P m m')
  case Nil
  then show ?case by (auto split: if_splits)
next
  case (Cons x xs)
  show ?case
  proof (cases "P []")
    case True
    with Cons.prems show ?thesis by simp
  next
    case False
    with Cons.prems(1) obtain m0 where m0: "find (\<lambda>z. P (x # z)) (prefixes xs) = Some m0"
      and m: "m = x # m0"
      by (auto simp: find_map_Cons)
    from False Cons.prems(2,3) obtain m0' where m': "m' = x # m0'" and p: "prefix m0' xs"
      by (cases m') auto
    from Cons.IH [OF m0 p] Cons.prems(3) m' have "length m0 \<le> length m0'" by simp
    with m m' show ?thesis by simp
  qed
qed

lemma shortestPattern_Some:
  assumes "shortestPattern s = Some m"
  shows "prefix m s" and "matchesPattern m"
    and "\<And>m'. prefix m' s \<Longrightarrow> matchesPattern m' \<Longrightarrow> length m \<le> length m'"
proof -
  from assms have "m \<in> set (prefixes s) \<and> matchesPattern m"
    unfolding shortestPattern_def by (rule find_Some_mem)
  then show "prefix m s" and "matchesPattern m" by simp_all
  fix m' assume "prefix m' s" "matchesPattern m'"
  with assms show "length m \<le> length m'"
    unfolding shortestPattern_def by (rule find_prefixes_min)
qed

lemma shortestPattern_None:
  "shortestPattern s = None \<longleftrightarrow> \<not> (\<exists>m. prefix m s \<and> matchesPattern m)"
  by (simp add: shortestPattern_def find_None_iff)

lemma suffix_same_length: "suffix a s \<Longrightarrow> suffix b s \<Longrightarrow> length a = length b \<Longrightarrow> a = b"
  by (auto simp: suffix_def)

lemma matchHere_shortest:
  "matchHere s = map_option (\<lambda>m. drop (length m) s) (shortestPattern s)"
proof (cases "shortestPattern s")
  case None
  have "matchHere s = None"
  proof (rule ccontr)
    assume "matchHere s \<noteq> None"
    then obtain r where r: "matchHere s = Some r" by auto
    then have "matchesPattern (take (length s - length r) s)" by (rule matchHere_matchesPattern)
    moreover have "prefix (take (length s - length r) s) s" by (rule take_is_prefix)
    ultimately show False using None by (auto simp: shortestPattern_None)
  qed
  with None show ?thesis by simp
next
  case (Some m)
  note sp = shortestPattern_Some [OF Some]
  from sp(1) obtain q where s: "s = m @ q" by (auto simp: prefix_def)
  from matchHere_complete [OF sp(2), of q] s
  obtain r where r: "matchHere s = Some r" and qr: "length q \<le> length r" by auto
  from r have suf: "suffix r s" by (rule matchHere_suffix)
  then have le: "length r \<le> length s" by (rule suffix_length_le)
  have "matchesPattern (take (length s - length r) s)" using r by (rule matchHere_matchesPattern)
  with sp(3) [OF take_is_prefix] have "length m \<le> length (take (length s - length r) s)" .
  with le have "length m \<le> length s - length r" by simp
  with s qr le have "length r = length q" by simp
  moreover have "suffix q s" using s by (simp add: suffix_def)
  ultimately have "r = q" using suf by (auto intro: suffix_same_length)
  with r s Some show ?thesis by simp
qed

lemma findAll_patternOccurrences: "findAll s = patternOccurrences s"
proof (induction s rule: findAll.induct)
  case 1
  then show ?case by simp
next
  case (2 c cs)
  show ?case
  proof (cases "shortestPattern (c # cs)")
    case None
    then have "matchHere (c # cs) = None" by (simp add: matchHere_shortest)
    with 2 None show ?thesis by simp
  next
    case (Some m)
    then have mh: "matchHere (c # cs) = Some (drop (length m) (c # cs))"
      by (simp add: matchHere_shortest)
    from shortestPattern_Some(1) [OF Some] obtain q where q: "c # cs = m @ q"
      by (auto simp: prefix_def)
    then have "take (length (c # cs) - length (drop (length m) (c # cs))) (c # cs) = m"
      by (simp only: q) simp
    with 2(2) [OF mh] mh Some show ?thesis by (simp del: length_drop)
  qed
qed

lemma patternOccurrences_Nil_suffix:
  "patternOccurrences s = [] \<Longrightarrow> suffix t s \<Longrightarrow> shortestPattern t = None"
proof (induction s)
  case Nil
  then show ?case
    using matchesPattern_nonempty by (auto simp: shortestPattern_None)
next
  case (Cons c cs)
  from Cons.prems(1) have n: "shortestPattern (c # cs) = None" and r: "patternOccurrences cs = []"
    by (auto split: option.splits)
  from Cons.prems(2) have "t = c # cs \<or> suffix t cs" by (auto simp: suffix_Cons)
  with n r Cons.IH show ?case by auto
qed

lemma patternOccurrences_Nil_iff:
  "patternOccurrences s = [] \<longleftrightarrow> \<not> (\<exists>m. sublist m s \<and> matchesPattern m)"
proof
  assume e: "patternOccurrences s = []"
  show "\<not> (\<exists>m. sublist m s \<and> matchesPattern m)"
  proof
    assume "\<exists>m. sublist m s \<and> matchesPattern m"
    then obtain m p q where s: "s = p @ m @ q" and m: "matchesPattern m"
      by (auto simp: sublist_def)
    then have "suffix (m @ q) s" by (simp add: suffix_def)
    with e have "shortestPattern (m @ q) = None" by (rule patternOccurrences_Nil_suffix)
    with m show False by (auto simp: shortestPattern_None)
  qed
next
  assume n: "\<not> (\<exists>m. sublist m s \<and> matchesPattern m)"
  show "patternOccurrences s = []"
  proof (rule ccontr)
    assume "patternOccurrences s \<noteq> []"
    then obtain m where "m \<in> set (findAll s)"
      by (cases "patternOccurrences s") (auto simp: findAll_patternOccurrences)
    then have "sublist m s \<and> matchesPattern m"
      by (simp add: findAll_sublist findAll_matchesPattern)
    with n show False by blast
  qed
qed

text \<open>
  Claim C4, as the code has it. Let the favicon-pattern occurrences of a page text be
  read left to right without overlap, the shortest pattern string at each position where
  one starts. When \<open>N\<close> of the occurrences are distinct strings and \<open>M\<close> are duplicates,
  the extractor returns exactly \<open>N\<close> entries: they are pairwise distinct, they are the
  occurrences, and they stand in the order of their first appearance. Every entry is a
  piece of the page and a favicon-pattern string: an absolute URL ending in
  \<^verbatim>\<open>/favicon.ico\<close>, the root-relative \<^verbatim>\<open>/favicon.ico\<close> or the bare \<^verbatim>\<open>favicon.ico\<close>,
  up to case. The result is empty exactly when the page has no favicon-pattern substring.
\<close>

theorem extractFaviconLinks_distinct_in_order:
  "card (set (patternOccurrences content)) = N \<Longrightarrow> length (patternOccurrences content) = N + M \<Longrightarrow>
     length (extractFaviconLinks content) = N
     \<and> distinct (extractFaviconLinks content)
     \<and> set (extractFaviconLinks content) = set (patternOccurrences content)
     \<and> sorted_wrt (\<lambda>a b. firstIndex (patternOccurrences content) a
                            < firstIndex (patternOccurrences content) b)
          (extractFaviconLinks content)
     \<and> (\<forall>m \<in> set (extractFaviconLinks content). sublist m content \<and> matchesPattern m)
     \<and> (extractFaviconLinks content = [] \<longleftrightarrow> \<not> (\<exists>m. sublist m content \<and> matchesPattern m))"
proof -
  assume N: "card (set (patternOccurrences content)) = N"
  have e: "extractFaviconLinks content = firstOccurrences (patternOccurrences content)"
    by (simp add: extractFaviconLinks_firstOccurrences findAll_patternOccurrences)
  from N have "length (extractFaviconLinks content) = N"
    by (simp add: e length_firstOccurrences)
  moreover have "\<forall>m \<in> set (extractFaviconLinks content). sublist m content \<and> matchesPattern m"
    by (simp add: extractFaviconLinks_firstOccurrences findAll_sublist findAll_matchesPattern)
  moreover have "extractFaviconLinks content = [] \<longleftrightarrow> patternOccurrences content = []"
    by (cases "patternOccurrences content") (simp_all add: e)
  ultimately show ?thesis
    by (simp add: e sorted_firstOccurrences patternOccurrences_Nil_iff)
qed

theorem extractFaviconLinks_distinct_in_order_witness:
  "card (set (patternOccurrences page1)) = 3 \<and> length (patternOccurrences page1) = 3 + 2
   \<and> patternOccurrences page1
       = [''/favicon.ico'', ''HTTP://a.com/favicon.ico'', ''FAVICON.ICO'', ''/favicon.ico'',
          ''HTTP://a.com/favicon.ico'']
   \<and> length (extractFaviconLinks page1) = 3
   \<and> extractFaviconLinks page1 = [''/favicon.ico'', ''HTTP://a.com/favicon.ico'', ''FAVICON.ICO'']"
proof -
  have p: "patternOccurrences page1
       = [''/favicon.ico'', ''HTTP://a.com/favicon.ico'', ''FAVICON.ICO'', ''/favicon.ico'',
          ''HTTP://a.com/favicon.ico'']"
    using findAll_page1 by (simp add: findAll_patternOccurrences)
  have c: "card (set (patternOccurrences page1)) = 3" and l: "length (patternOccurrences page1) = 3 + 2"
    unfolding p card_set by simp_all
  have "extractFaviconLinks page1 = [''/favicon.ico'', ''HTTP://a.com/favicon.ico'', ''FAVICON.ICO'']"
    by (simp add: extractFaviconLinks_def findAll_page1)
  with c l p extractFaviconLinks_distinct_in_order [OF c l] show ?thesis by simp
qed

text \<open>
  The claim C4 as stated, with every favicon-pattern substring of the page counted,
  fails: a pattern string holds shorter pattern strings, which overlap it and are not
  returned. The text \<^verbatim>\<open>/favicon.ico\<close> has two distinct favicon-pattern substrings
  (\<open>sublists\<close> lists all substrings of a text) and the extractor returns one entry.
\<close>

theorem extractFaviconLinks_substrings_counterexample:
  "remdups (filter matchesPattern (sublists ''/favicon.ico'')) = [''favicon.ico'', ''/favicon.ico'']
   \<and> extractFaviconLinks ''/favicon.ico'' = [''/favicon.ico'']"
  by (simp add: matchesPattern_def schemeRest_def classThenFavicon_def extractFaviconLinks_def
                re_eval)

text \<open>
  Claim C9. The resolver's test for an absolute URL is case-sensitive, the extractor's
  pattern is not. A reference that starts with \<^verbatim>\<open>http://\<close> or \<^verbatim>\<open>https://\<close> only up to
  case (not in exactly these lower-case letters) is treated as relative: the resolver
  returns base + \<^verbatim>\<open>/\<close> + reference. The extractor produces such references: from
  the page text \<^verbatim>\<open>HTTP://a.com/favicon.ico\<close> it returns this very string.
\<close>

theorem resolveLink_case_sensitive:
  "hasSchemeFold link \<Longrightarrow> \<not> prefix ''http://'' link \<Longrightarrow> \<not> prefix ''https://'' link \<Longrightarrow>
     resolveLink base link = Inr (base @ ''/'' @ link)
     \<and> extractFaviconLinks ''HTTP://a.com/favicon.ico'' = [''HTTP://a.com/favicon.ico'']
     \<and> resolveLink ''http://b.org'' ''HTTP://a.com/favicon.ico''
         = Inr ''http://b.org/HTTP://a.com/favicon.ico''"
proof -
  assume s: "hasSchemeFold link" and n: "\<not> prefix ''http://'' link" "\<not> prefix ''https://'' link"
  from s obtain c cs where link: "link = c # cs" and c: "foldEq CHR ''h'' c"
    by (cases link) (auto simp: hasSchemeFold_def schemeRest_def split: if_splits)
  from c have "c \<noteq> CHR ''/''" by (auto simp: foldEq_def)
  with link n have "resolveLink base link = Inr (base @ ''/'' @ link)"
    by (simp add: resolveLink_def HasPrefix_prefix del: HasPrefix_Cons_Cons)
  moreover have "extractFaviconLinks ''HTTP://a.com/favicon.ico'' = [''HTTP://a.com/favicon.ico'']"
    by (simp add: extractFaviconLinks_def re_eval)
  moreover have "resolveLink ''http://b.org'' ''HTTP://a.com/favicon.ico''
         = Inr ''http://b.org/HTTP://a.com/favicon.ico''"
    by (simp add: resolveLink_def)
  ultimately show ?thesis by simp
qed

theorem resolveLink_case_sensitive_witness:
  "hasSchemeFold ''Https://a.com/favicon.ico''
   \<and> \<not> prefix ''http://'' ''Https://a.com/favicon.ico''
   \<and> \<not> prefix ''https://'' ''Https://a.com/favicon.ico''
   \<and> resolveLink ''http://b.org'' ''Https://a.com/favicon.ico''
       = Inr ''http://b.org/Https://a.com/favicon.ico''"
proof -
  have h: "hasSchemeFold ''Https://a.com/favicon.ico''"
    by (simp add: hasSchemeFold_def schemeRest_def re_eval)
  have n1: "\<not> prefix ''http://'' ''Https://a.com/favicon.ico''"
    and n2: "\<not> prefix ''https://'' ''Https://a.com/favicon.ico''"
    by simp_all
  from resolveLink_case_sensitive [OF h n1 n2, of "''http://b.org''"] h n1 n2
  show ?thesis by simp
qed


subsection \<open>Reading the list of URLs\<close>

lemma leadingSpace_0_iff: "leadingSpace s = 0 \<longleftrightarrow> (\<forall>e \<in> set spaceEncodings. \<not> prefix e s)"
proof (cases "find (HasPrefix s) spaceEncodings")
  case None
  then have "leadingSpace s = 0" by (simp add: leadingSpace_def)
  moreover from None have "\<forall>e \<in> set spaceEncodings. \<not> prefix e s"
    by (auto simp: find_None_iff HasPrefix_prefix)
  ultimately show ?thesis by simp
next
  case (Some e)
  then have "e \<in> set spaceEncodings" "HasPrefix s e"
    by (auto dest: find_Some_mem simp: find_Some_iff)
  with Some show ?thesis
    by (auto simp: leadingSpace_def HasPrefix_prefix dest: spaceEncodings_nonempty)
qed

lemma HasSuffix_suffix: "HasSuffix s p = suffix p s"
  by (auto simp: HasSuffix_def suffix_def) (metis append_take_drop_id)

lemma trailingSpace_0_iff: "trailingSpace s = 0 \<longleftrightarrow> (\<forall>e \<in> set spaceEncodings. \<not> suffix e s)"
proof (cases "find (HasSuffix s) spaceEncodings")
  case None
  then have "trailingSpace s = 0" by (simp add: trailingSpace_def)
  moreover from None have "\<forall>e \<in> set spaceEncodings. \<not> suffix e s"
    by (auto simp: find_None_iff HasSuffix_suffix)
  ultimately show ?thesis by simp
next
  case (Some e)
  then have "e \<in> set spaceEncodings" "HasSuffix s e"
    by (auto dest: find_Some_mem simp: find_Some_iff)
  with Some show ?thesis
    by (auto simp: trailingSpace_def HasSuffix_suffix dest: spaceEncodings_nonempty)
qed

lemma leadingSpace_TrimLeft: "leadingSpace (TrimLeft s) = 0"
  by (induction s rule: TrimLeft.induct) (subst TrimLeft.simps, auto)

lemma trailingSpace_TrimRight: "trailingSpace (TrimRight s) = 0"
  by (induction s rule: TrimRight.induct) (subst TrimRight.simps, auto)

lemma prefix_TrimRight: "prefix (TrimRight s) s"
proof (induction s rule: TrimRight.induct)
  case (1 s)
  show ?case
  proof (cases "0 < trailingSpace s")
    case True
    with 1 have "prefix (TrimRight s) (take (length s - trailingSpace s) s)"
      by (subst TrimRight.simps) simp
    then show ?thesis using take_is_prefix prefix_order.trans by blast
  next
    case False
    then show ?thesis by (subst TrimRight.simps) simp
  qed
qed

lemma leadingSpace_TrimRight: "leadingSpace s = 0 \<Longrightarrow> leadingSpace (TrimRight s) = 0"
  unfolding leadingSpace_0_iff using prefix_TrimRight [of s] prefix_order.trans by blast

lemma TrimSpace_trimmed: "leadingSpace (TrimSpace s) = 0 \<and> trailingSpace (TrimSpace s) = 0"
  by (simp add: TrimSpace_def trailingSpace_TrimRight leadingSpace_TrimRight leadingSpace_TrimLeft)


lemma scanLoop_eq:
  "scanLoop buf urls =
     (if list_ex (\<lambda>l. MaxScanTokenSize \<le> length l) (rawLines buf) then Inl ErrTooLong
      else Inr (urls @ filter (\<lambda>u. u \<noteq> []) (map TrimSpace (fileLines buf))))"
proof (induction buf urls rule: scanLoop.induct)
  case (1 buf urls)
  show ?case
  proof (cases "scanStep buf")
    case ScanDone
    then have "buf = []" by (auto simp: scanStep_def Let_def split: if_splits)
    with ScanDone show ?thesis
      by (subst scanLoop.simps, subst rawLines.simps) (simp add: fileLines_def rawLines.simps)
  next
    case (ScanFail e)
    then have "buf \<noteq> []" "e = ErrTooLong"
      "MaxScanTokenSize \<le> length (takeWhile (\<lambda>c. c \<noteq> CHR 0x0A) buf)"
      by (auto simp: scanStep_def Let_def split: if_splits)
    with ScanFail show ?thesis
      by (subst scanLoop.simps, subst rawLines.simps) simp
  next
    case (ScanToken tok rest)
    then have buf: "buf \<noteq> []"
      and short: "\<not> MaxScanTokenSize \<le> length (takeWhile (\<lambda>c. c \<noteq> CHR 0x0A) buf)"
      and tok: "tok = dropCR (takeWhile (\<lambda>c. c \<noteq> CHR 0x0A) buf)"
      and rest: "rest = drop (Suc (length (takeWhile (\<lambda>c. c \<noteq> CHR 0x0A) buf))) buf"
      by (auto simp: scanStep_def Let_def split: if_splits)
    have raw: "rawLines buf = takeWhile (\<lambda>c. c \<noteq> CHR 0x0A) buf # rawLines rest"
      using buf rest by (subst rawLines.simps) simp
    show ?thesis
    proof (cases "TrimSpace tok = []")
      case True
      with 1(2) [OF ScanToken refl] ScanToken short tok show ?thesis
        by (subst scanLoop.simps) (simp add: raw fileLines_def)
    next
      case False
      with 1(1) [OF ScanToken refl] ScanToken short tok show ?thesis
        by (subst scanLoop.simps) (simp add: raw fileLines_def)
    qed
  qed
qed


lemma rawLines_Nil: "rawLines [] = []"
  by (subst rawLines.simps) simp

lemma rawLines_Cons:
  "rawLines (c # cs) = takeWhile (\<lambda>c. c \<noteq> CHR 0x0A) (c # cs)
             # rawLines (drop (Suc (length (takeWhile (\<lambda>c. c \<noteq> CHR 0x0A) (c # cs)))) (c # cs))"
  by (subst rawLines.simps) simp

lemma file1_rawLines:
  "rawLines (contents file1) = [''  http://a.com '' @ [CHR 0x0D], [], [CHR 0x09], ''http://b.org'']"
  by (simp add: file1_def rawLines_Nil rawLines_Cons)

lemma file1_lines:
  "fileLines (contents file1) = [''  http://a.com '', [], [CHR 0x09], ''http://b.org'']"
  by (simp add: fileLines_def file1_rawLines dropCR_def)

lemma file1_scanError: "scanError file1 = None"
  by (simp add: scanError_def file1_rawLines MaxScanTokenSize_def) (simp add: file1_def)

lemma TrimSpace_examples:
  "TrimSpace ''  http://a.com '' = ''http://a.com''" "TrimSpace [] = []"
  "TrimSpace [CHR 0x09] = []" "TrimSpace ''http://b.org'' = ''http://b.org''"
  by code_simp+

lemma file1_urls: "readURLsFromFile fs1 ''urls.txt'' = Inr [''http://a.com'', ''http://b.org'']"
  by (simp add: readURLsFromFile_def fs1_def scanLoop_eq file1_rawLines MaxScanTokenSize_def
                file1_lines TrimSpace_examples)
     (simp add: file1_def)

lemma longLine_length: "length longLine = 65536"
  by (simp add: longLine_def MaxScanTokenSize_def)

lemma longLine_Cons: "longLine = CHR ''a'' # replicate (MaxScanTokenSize - 1) CHR ''a''"
proof -
  have "MaxScanTokenSize = Suc (MaxScanTokenSize - 1)" by (simp add: MaxScanTokenSize_def)
  then have "replicate MaxScanTokenSize CHR ''a''
               = replicate (Suc (MaxScanTokenSize - 1)) CHR ''a''" by simp
  then show ?thesis unfolding longLine_def by (simp only: replicate_Suc)
qed

lemma longLine_rawLines: "rawLines longLine = [longLine]"
proof -
  have ne: "longLine \<noteq> []" by (simp add: longLine_Cons)
  have tw: "takeWhile (\<lambda>c. c \<noteq> CHR 0x0A) longLine = longLine"
    by (simp add: longLine_def takeWhile_replicate)
  show ?thesis
    by (subst rawLines.simps) (simp add: ne tw rawLines_Nil)
qed

lemma longLine_fileLines: "fileLines longLine = [longLine]"
proof -
  have "last longLine = CHR ''a''"
    by (simp add: longLine_def MaxScanTokenSize_def)
  then show ?thesis by (simp add: fileLines_def longLine_rawLines dropCR_def)
qed

lemma longLine_TrimSpace: "TrimSpace longLine = longLine"
proof -
  have "\<forall>e \<in> set spaceEncodings. \<not> prefix e longLine"
    unfolding longLine_Cons by (simp add: spaceEncodings_def)
  then have l: "leadingSpace longLine = 0" by (simp add: leadingSpace_0_iff)
  have la: "last longLine = CHR ''a''" by (simp add: longLine_def MaxScanTokenSize_def)
  have ne: "longLine \<noteq> []" by (simp add: longLine_Cons)
  have "\<not> suffix e longLine" if "e \<in> set spaceEncodings" for e
  proof
    assume "suffix e longLine"
    then obtain p where "longLine = p @ e" by (auto simp: suffix_def)
    moreover from that have "e \<noteq> []" by (rule spaceEncodings_nonempty)
    ultimately have "last e = CHR ''a''" using la by (metis last_appendR)
    with that show False by (auto simp: spaceEncodings_def)
  qed
  then have t: "trailingSpace longLine = 0" by (simp add: trailingSpace_0_iff)
  show ?thesis
    unfolding TrimSpace_def by (subst TrimLeft.simps, simp add: l, subst TrimRight.simps, simp add: t)
qed

text \<open>
  Claim C7, as the code has it. Reading the input file never yields a blank line as a
  URL. For every file that opens and is scanned without error (no read error, every line
  shorter than 65536 bytes), the reader returns exactly the lines that are non-blank
  after trimming leading and trailing white space, each trimmed, so the number of URLs
  returned is the number of lines that are non-blank after trimming. When the scan ends
  with an error the reader returns that error and no URL.
\<close>

theorem readURLsFromFile_nonblank_trimmed:
  "fs filename = Inr file \<Longrightarrow>
     readURLsFromFile fs filename =
       (case scanError file of
          Some err \<Rightarrow> Inl err
        | None \<Rightarrow> Inr (filter (\<lambda>u. u \<noteq> []) (map TrimSpace (fileLines (contents file)))))
     \<and> (\<forall>urls. readURLsFromFile fs filename = Inr urls \<longrightarrow>
          [] \<notin> set urls
          \<and> length urls = length (filter (\<lambda>l. TrimSpace l \<noteq> []) (fileLines (contents file))))"
proof (intro conjI allI impI)
  assume f: "fs filename = Inr file"
  show eq: "readURLsFromFile fs filename =
       (case scanError file of
          Some err \<Rightarrow> Inl err
        | None \<Rightarrow> Inr (filter (\<lambda>u. u \<noteq> []) (map TrimSpace (fileLines (contents file)))))"
    using f by (auto simp: readURLsFromFile_def scanLoop_eq scanError_def split: option.splits)
  fix urls
  assume "readURLsFromFile fs filename = Inr urls"
  with eq have urls: "urls = filter (\<lambda>u. u \<noteq> []) (map TrimSpace (fileLines (contents file)))"
    by (cases "scanError file") simp_all
  then show "[] \<notin> set urls" by simp
  from urls show "length urls = length (filter (\<lambda>l. TrimSpace l \<noteq> []) (fileLines (contents file)))"
    by (simp add: filter_map comp_def)
qed

theorem readURLsFromFile_nonblank_trimmed_witness:
  "fs1 ''urls.txt'' = Inr file1
   \<and> fileLines (contents file1) = [''  http://a.com '', [], [CHR 0x09], ''http://b.org'']
   \<and> readURLsFromFile fs1 ''urls.txt'' = Inr [''http://a.com'', ''http://b.org'']
   \<and> length (filter (\<lambda>l. TrimSpace l \<noteq> []) (fileLines (contents file1))) = 2"
proof -
  have f: "fs1 ''urls.txt'' = Inr file1" by (simp add: fs1_def)
  have "readURLsFromFile fs1 ''urls.txt'' = Inr [''http://a.com'', ''http://b.org'']"
    using readURLsFromFile_nonblank_trimmed [of fs1 "''urls.txt''" file1] f
    by (simp add: file1_scanError file1_lines TrimSpace_examples)
  with f show ?thesis
    by (simp add: file1_lines TrimSpace_examples)
qed

text \<open>
  The claim C7 as stated, for every input file, fails: a line of 65536 bytes does not fit
  the buffer of the scanner, \<^verbatim>\<open>scanner.Err()\<close> is \<^verbatim>\<open>bufio.ErrTooLong\<close>, and the reader
  returns the error instead of the one non-blank line of the file.
\<close>

theorem readURLsFromFile_long_line_counterexample:
  "fsLong ''urls.txt'' = Inr longFile
   \<and> fileLines (contents longFile) = [longLine] \<and> length longLine = 65536
   \<and> TrimSpace longLine = longLine
   \<and> readURLsFromFile fsLong ''urls.txt'' = Inl ErrTooLong"
proof -
  have "readURLsFromFile fsLong ''urls.txt'' = Inl ErrTooLong"
    by (simp add: readURLsFromFile_def fsLong_def longFile_def scanLoop_eq longLine_rawLines
                  longLine_length MaxScanTokenSize_def)
  then show ?thesis
    by (simp add: fsLong_def longFile_def longLine_fileLines longLine_length longLine_TrimSpace)
qed

text \<open>
  Claim C10. Every element of the list the reader returns is non-empty and has no
  leading and no trailing white space (it neither starts nor ends with the encoding of a
  white-space character), and the elements stand in the order of their source lines: the
  list is a subsequence of the trimmed lines of the file.
\<close>

theorem readURLsFromFile_trimmed_in_order:
  "fs filename = Inr file \<Longrightarrow> readURLsFromFile fs filename = Inr urls \<Longrightarrow>
     (\<forall>u \<in> set urls. u \<noteq> [] \<and> (\<forall>sp \<in> set spaceEncodings. \<not> prefix sp u \<and> \<not> suffix sp u))
     \<and> subseq urls (map TrimSpace (fileLines (contents file)))"
proof -
  assume f: "fs filename = Inr file" and r: "readURLsFromFile fs filename = Inr urls"
  from f r have "urls = filter (\<lambda>u. u \<noteq> []) (map TrimSpace (fileLines (contents file)))"
    by (auto simp: readURLsFromFile_def scanLoop_eq split: option.splits if_splits)
  moreover have "\<forall>sp \<in> set spaceEncodings. \<not> prefix sp (TrimSpace l) \<and> \<not> suffix sp (TrimSpace l)"
    for l
    using TrimSpace_trimmed [of l] leadingSpace_0_iff [of "TrimSpace l"]
      trailingSpace_0_iff [of "TrimSpace l"]
    by blast
  ultimately show ?thesis by auto
qed

theorem readURLsFromFile_trimmed_in_order_witness:
  "fs1 ''urls.txt'' = Inr file1
   \<and> readURLsFromFile fs1 ''urls.txt'' = Inr [''http://a.com'', ''http://b.org'']
   \<and> list_all (\<lambda>sp. \<not> prefix sp ''http://a.com'' \<and> \<not> suffix sp ''http://a.com'') spaceEncodings
   \<and> list_all (\<lambda>sp. \<not> prefix sp ''http://b.org'' \<and> \<not> suffix sp ''http://b.org'') spaceEncodings
   \<and> subseq [''http://a.com'', ''http://b.org''] (map TrimSpace (fileLines (contents file1)))"
proof -
  have f: "fs1 ''urls.txt'' = Inr file1" by (simp add: fs1_def)
  from readURLsFromFile_trimmed_in_order
         [of fs1 "''urls.txt''" file1 "[''http://a.com'', ''http://b.org'']"] f file1_urls
  show ?thesis by (simp add: list_all_iff)
qed

subsection \<open>The page fetcher\<close>

text \<open>
  Claim C5, as the code has it. The fetcher returns the full body exactly when the
  request succeeds, the status is 200 and the body is read to its end. It signals a
  StatusError carrying the status code exactly when the request succeeds with a status
  other than 200, the other 2xx codes included. A transport failure yields a
  TransportError with the message of the failure, and only a transport failure does.
\<close>

theorem fetchHTML_outcomes:
  "(fetchHTML get url = Inr body \<longleftrightarrow>
      (\<exists>resp. get url = Inr resp \<and> StatusCode resp = 200 \<and> BodyErr resp = None \<and> Body resp = body))
   \<and> (fetchHTML get url = Inl (StatusError code) \<longleftrightarrow>
      (\<exists>resp. get url = Inr resp \<and> StatusCode resp = code \<and> code \<noteq> 200))
   \<and> (fetchHTML get url = Inl (TransportError msg) \<longleftrightarrow> get url = Inl msg)"
  by (auto simp: fetchHTML_def split: sum.splits option.splits)

text \<open>
  The claim C5 as stated fails: 201 is a success status, and the fetcher signals a
  StatusError for it and returns no body.
\<close>

theorem fetchHTML_success_status_counterexample:
  "200 \<le> StatusCode created \<and> StatusCode created < 300
   \<and> fetchHTML net201 ''http://a.com'' = Inl (StatusError 201)"
  by (simp add: fetchHTML_def net201_def created_def)

subsection \<open>The result store\<close>

lemma saveToDatabase_unique:
  "uniqueLinks db \<Longrightarrow> uniqueLinks (snd (saveToDatabase fault db link m s))"
  by (auto simp: saveToDatabase_def uniqueLinks_def split: option.splits)

lemma saveToDatabase_duplicate:
  "lookupLink db link = Some row \<Longrightarrow>
     fst (saveToDatabase fault db link m s) = fault
     \<and> favicons (snd (saveToDatabase fault db link m s)) = favicons db
     \<and> saveToDatabase None db link m s = (None, db\<lparr>seq := nextId db\<rparr>)"
  by (auto simp: saveToDatabase_def lookupLink_def find_Some_iff split: option.splits)

lemma find_append:
  "find P (xs @ ys) = (case find P xs of Some x \<Rightarrow> Some x | None \<Rightarrow> find P ys)"
  by (induction xs) auto

lemma saveToDatabase_keeps:
  "lookupLink db link' = Some row \<Longrightarrow>
     lookupLink (snd (saveToDatabase fault db link m s)) link' = Some row"
  by (auto simp: saveToDatabase_def lookupLink_def find_append split: option.splits)

lemma saveToDatabase_first:
  assumes "favicons db \<noteq> None" and "lookupLink db link = None"
  shows "\<exists>n. lookupLink (snd (saveToDatabase None db link m s)) link
                = Some \<lparr>col_id = n, col_link = link, col_md5 = m, col_sha256 = s\<rparr>"
proof -
  from assms obtain rows where rows: "favicons db = Some rows"
    and none: "find (\<lambda>r. col_link r = link) rows = None"
    by (auto simp: lookupLink_def)
  from none have absent: "\<not> (\<exists>r \<in> set rows. col_link r = link)"
    by (simp add: find_None_iff)
  have "lookupLink (snd (saveToDatabase None db link m s)) link
          = Some \<lparr>col_id = nextId db, col_link = link, col_md5 = m, col_sha256 = s\<rparr>"
    using rows absent none by (simp add: saveToDatabase_def lookupLink_def find_append)
  then show ?thesis by blast
qed

lemma saveAll_unique: "uniqueLinks db \<Longrightarrow> uniqueLinks (saveAll db calls)"
  by (induction db calls rule: saveAll.induct) (auto intro: saveToDatabase_unique)

lemma saveAll_keeps:
  "lookupLink db link = Some row \<Longrightarrow> lookupLink (saveAll db calls) link = Some row"
  by (induction db calls rule: saveAll.induct) (auto intro: saveToDatabase_keeps)

lemma filter_absent:
  "link \<notin> col_link ` set rows \<Longrightarrow> filter (\<lambda>r. col_link r = link) rows = []"
  by (auto simp: filter_empty_conv)

lemma uniqueLinks_rowCount: "uniqueLinks db \<Longrightarrow> rowCount db link \<le> 1"
proof -
  have "distinct (map col_link rows) \<Longrightarrow> length (filter (\<lambda>r. col_link r = link) rows) \<le> 1"
    for rows :: "favicon list"
    by (induction rows) (auto simp: filter_absent)
  then show "uniqueLinks db \<Longrightarrow> rowCount db link \<le> 1"
    by (auto simp: uniqueLinks_def rowCount_def split: option.splits)
qed

lemma emptyStore_unique: "uniqueLinks emptyStore"
  by (simp add: emptyStore_def createTable_def uniqueLinks_def)

text \<open>
  Claim C2, as the code has it. The store keeps at most one record per URL: after every
  sequence of calls of \<^verbatim>\<open>saveToDatabase\<close> no two rows have the same link. A call for a
  URL that has a record returns no error (none but a fault of the storage itself) and
  changes no record: the rows stay as they are, only the \<^verbatim>\<open>AUTOINCREMENT\<close> counter
  advances. The record of the URL is the same after every sequence of calls. A call for
  a URL without a record stores the URL with the digests given, so the record of a URL
  is that of its first insert.
\<close>

theorem saveToDatabase_insert_if_absent:
  "uniqueLinks db \<Longrightarrow>
     uniqueLinks (saveAll db calls)
     \<and> rowCount (saveAll db calls) link \<le> 1
     \<and> (\<forall>row. lookupLink db link = Some row \<longrightarrow>
           fst (saveToDatabase fault db link md5Hash sha256Hash) = fault
           \<and> favicons (snd (saveToDatabase fault db link md5Hash sha256Hash)) = favicons db
           \<and> saveToDatabase None db link md5Hash sha256Hash = (None, db\<lparr>seq := nextId db\<rparr>)
           \<and> lookupLink (saveAll db calls) link = Some row)
     \<and> (favicons db \<noteq> None \<and> lookupLink db link = None \<longrightarrow>
           (\<exists>row. lookupLink (snd (saveToDatabase None db link md5Hash sha256Hash)) link = Some row
                  \<and> col_link row = link \<and> col_md5 row = md5Hash \<and> col_sha256 row = sha256Hash
                  \<and> lookupLink (saveAll (snd (saveToDatabase None db link md5Hash sha256Hash)) calls) link
                       = Some row))"
proof (intro conjI allI impI)
  assume u: "uniqueLinks db"
  show "uniqueLinks (saveAll db calls)" using u by (rule saveAll_unique)
  then show "rowCount (saveAll db calls) link \<le> 1" by (rule uniqueLinks_rowCount)
next
  fix row assume l: "lookupLink db link = Some row"
  from saveToDatabase_duplicate [OF l]
  show "fst (saveToDatabase fault db link md5Hash sha256Hash) = fault"
    and "favicons (snd (saveToDatabase fault db link md5Hash sha256Hash)) = favicons db"
    and "saveToDatabase None db link md5Hash sha256Hash = (None, db\<lparr>seq := nextId db\<rparr>)"
    by blast+
  from l show "lookupLink (saveAll db calls) link = Some row" by (rule saveAll_keeps)
next
  assume "favicons db \<noteq> None \<and> lookupLink db link = None"
  then obtain n where
    "lookupLink (snd (saveToDatabase None db link md5Hash sha256Hash)) link
       = Some \<lparr>col_id = n, col_link = link, col_md5 = md5Hash, col_sha256 = sha256Hash\<rparr>"
    using saveToDatabase_first [of db link md5Hash sha256Hash] by blast
  then show "\<exists>row. lookupLink (snd (saveToDatabase None db link md5Hash sha256Hash)) link = Some row
                  \<and> col_link row = link \<and> col_md5 row = md5Hash \<and> col_sha256 row = sha256Hash
                  \<and> lookupLink (saveAll (snd (saveToDatabase None db link md5Hash sha256Hash)) calls) link
                       = Some row"
    by (auto intro: saveAll_keeps)
qed

lemma saveAll_calls1: "saveAll emptyStore calls1 = store2"
  by (simp add: emptyStore_def createTable_def calls1_def saveToDatabase_def store2_def
                nextId_def)

lemma store1_duplicate:
  "saveToDatabase None store1 ''http://a.com/favicon.ico'' ''m3'' ''s3'' = (None, store2)"
  by (simp add: saveToDatabase_def store1_def store2_def nextId_def)

theorem saveToDatabase_insert_if_absent_witness:
  "uniqueLinks emptyStore \<and> favicons emptyStore \<noteq> None
   \<and> lookupLink emptyStore ''http://a.com/favicon.ico'' = None
   \<and> saveAll emptyStore calls1 = store2
   \<and> uniqueLinks store2
   \<and> rowCount store2 ''http://a.com/favicon.ico'' = 1
   \<and> lookupLink store1 ''http://a.com/favicon.ico''
        = Some \<lparr>col_id = 1, col_link = ''http://a.com/favicon.ico'', col_md5 = ''m1'', col_sha256 = ''s1''\<rparr>
   \<and> saveToDatabase None store1 ''http://a.com/favicon.ico'' ''m3'' ''s3''
        = (None, store1\<lparr>seq := nextId store1\<rparr>)
   \<and> favicons store2 = favicons store1
   \<and> lookupLink store2 ''http://a.com/favicon.ico''
        = Some \<lparr>col_id = 1, col_link = ''http://a.com/favicon.ico'', col_md5 = ''m1'', col_sha256 = ''s1''\<rparr>"
proof -
  have u: "uniqueLinks emptyStore" by (rule emptyStore_unique)
  have e: "favicons emptyStore \<noteq> None" "lookupLink emptyStore ''http://a.com/favicon.ico'' = None"
    by (simp_all add: emptyStore_def createTable_def lookupLink_def)
  have l: "lookupLink store1 ''http://a.com/favicon.ico''
        = Some \<lparr>col_id = 1, col_link = ''http://a.com/favicon.ico'', col_md5 = ''m1'', col_sha256 = ''s1''\<rparr>"
    by (simp add: store1_def lookupLink_def)
  have c: "rowCount store2 ''http://a.com/favicon.ico'' = 1"
    by (simp add: store2_def rowCount_def)
  have u1: "uniqueLinks store1" by (simp add: store1_def uniqueLinks_def)
  from saveToDatabase_insert_if_absent
         [OF u, of calls1 "''http://a.com/favicon.ico''" None "''m1''" "''s1''"]
  have u2: "uniqueLinks store2" by (simp add: saveAll_calls1)
  from saveToDatabase_insert_if_absent
         [OF u1, of "[]" "''http://a.com/favicon.ico''" None "''m3''" "''s3''"] l
  have d: "saveToDatabase None store1 ''http://a.com/favicon.ico'' ''m3'' ''s3''
             = (None, store1\<lparr>seq := nextId store1\<rparr>)"
    and f: "favicons (snd (saveToDatabase None store1 ''http://a.com/favicon.ico'' ''m3'' ''s3''))
             = favicons store1"
    by simp_all
  from f have f2: "favicons store2 = favicons store1" by (simp add: store1_duplicate)
  have l2: "lookupLink store2 ''http://a.com/favicon.ico''
        = Some \<lparr>col_id = 1, col_link = ''http://a.com/favicon.ico'', col_md5 = ''m1'', col_sha256 = ''s1''\<rparr>"
    by (simp add: store2_def lookupLink_def)
  from u e l c u2 d f2 l2 show ?thesis by (simp add: saveAll_calls1)
qed

text \<open>
  The claim C2 as stated, a call for a stored URL changes nothing, fails: the call takes
  an identifier. In the store with two rows and the counter at 2, the insert of the
  first URL with other digests returns no error and leaves the rows, but moves the
  counter to 3; a URL inserted next gets the identifier 4, not 3.
\<close>

theorem saveToDatabase_duplicate_counter_counterexample:
  "lookupLink store1 ''http://a.com/favicon.ico''
     = Some \<lparr>col_id = 1, col_link = ''http://a.com/favicon.ico'', col_md5 = ''m1'', col_sha256 = ''s1''\<rparr>
   \<and> saveToDatabase None store1 ''http://a.com/favicon.ico'' ''m3'' ''s3'' = (None, store2)
   \<and> store2 \<noteq> store1 \<and> seq store1 = 2 \<and> seq store2 = 3
   \<and> lookupLink (snd (saveToDatabase None store1 ''http://c.net/favicon.ico'' ''m4'' ''s4''))
        ''http://c.net/favicon.ico''
       = Some \<lparr>col_id = 3, col_link = ''http://c.net/favicon.ico'', col_md5 = ''m4'', col_sha256 = ''s4''\<rparr>
   \<and> lookupLink (snd (saveToDatabase None store2 ''http://c.net/favicon.ico'' ''m4'' ''s4''))
        ''http://c.net/favicon.ico''
       = Some \<lparr>col_id = 4, col_link = ''http://c.net/favicon.ico'', col_md5 = ''m4'', col_sha256 = ''s4''\<rparr>"
  by (simp add: saveToDatabase_def store1_def store2_def nextId_def lookupLink_def)

subsection \<open>The orchestrator\<close>

lemma reported_append: "reported a \<Longrightarrow> reported b \<Longrightarrow> reported (a @ b)"
proof (induction a rule: reported.induct)
  case 1
  then show ?case by simp
next
  case (2 c)
  then show ?case by (cases b) auto
next
  case (3 c ev es)
  then show ?case by simp
qed

lemma processed_append [simp]: "processed (a @ b) = processed a @ processed b"
  by (simp add: processed_def)

lemma fetched_append [simp]: "fetched (a @ b) = fetched a @ fetched b"
  by (simp add: fetched_def)

lemma hashed_append [simp]: "hashed (a @ b) = hashed a @ hashed b"
  by (simp add: hashed_def)

lemma run_simps [simp]:
  "trace (emit es r) = trace r @ es" "step (emit es r) = step r" "store (emit es r) = store r"
  "trace (tick r) = trace r" "step (tick r) = Suc (step r)" "store (tick r) = store r"
  by (simp_all add: emit_def tick_def)

lemma resolveLink_nonempty: "link \<noteq> [] \<Longrightarrow> \<exists>u. resolveLink baseURL link = Inr u"
  by (cases link) (auto simp: resolveLink_def)

lemma linkBlock_append: "linkBlock a \<Longrightarrow> linkBlock b \<Longrightarrow> linkBlock (a @ b)"
  by (simp add: linkBlock_def reported_append)

lemma linkLoop_step:
  assumes "link \<noteq> []"
  shows "\<exists>r1 es u. resolveLink baseURL link = Inr u \<and> trace r1 = trace r @ es \<and> linkBlock es \<and> hashed es = [u]
           \<and> linkLoop e baseURL (link # links) r = linkLoop e baseURL links r1"
proof -
  from assms obtain u where u: "resolveLink baseURL link = Inr u"
    using resolveLink_nonempty by blast
  show ?thesis
  proof (cases "calculateHashes (md5Hex e) (sha256Hex e) (httpGet e (step r)) u")
    case (Inl err)
    let ?r1 = "emit [CalculateHashes u (Inl err), Stderr (ErrCalculatingHash u err)] (tick r)"
    have "linkLoop e baseURL (link # links) r = linkLoop e baseURL links ?r1"
      using u Inl by simp
    moreover have "linkBlock [CalculateHashes u (Inl err), Stderr (ErrCalculatingHash u err)]"
      by (simp add: linkBlock_def processed_def fetched_def)
    moreover have "hashed [CalculateHashes u (Inl err), Stderr (ErrCalculatingHash u err)] = [u]"
      by (simp add: hashed_def)
    moreover have "trace ?r1 = trace r @ [CalculateHashes u (Inl err), Stderr (ErrCalculatingHash u err)]"
      by simp
    ultimately show ?thesis using u by blast
  next
    case (Inr digests)
    obtain m s where digests: "digests = (m, s)" by (cases digests)
    let ?r1 = "emit [CalculateHashes u (Inr (m, s)), Stdout (FaviconLine u m s)] (tick r)"
    obtain err db where save: "saveToDatabase (dbExec e (step ?r1)) (store ?r1) u m s = (err, db)"
      by (cases "saveToDatabase (dbExec e (step ?r1)) (store ?r1) u m s")
    let ?r2 = "emit [SaveToDatabase u m s err] (tick (?r1\<lparr>store := db\<rparr>))"
    show ?thesis
    proof (cases err)
      case None
      have "linkLoop e baseURL (link # links) r = linkLoop e baseURL links ?r2"
        using u Inr digests save None by (simp add: Let_def)
      moreover have "linkBlock [CalculateHashes u (Inr (m, s)), Stdout (FaviconLine u m s),
                       SaveToDatabase u m s err]"
        using None by (simp add: linkBlock_def processed_def fetched_def)
      moreover have "hashed [CalculateHashes u (Inr (m, s)), Stdout (FaviconLine u m s),
                       SaveToDatabase u m s err] = [u]"
        by (simp add: hashed_def)
      moreover have "trace ?r2 = trace r @ [CalculateHashes u (Inr (m, s)), Stdout (FaviconLine u m s),
                       SaveToDatabase u m s err]"
        by (simp add: emit_def tick_def)
      ultimately show ?thesis using u by blast
    next
      case (Some err')
      let ?r3 = "emit [Stderr (ErrSavingToDB link err')] ?r2"
      have "linkLoop e baseURL (link # links) r = linkLoop e baseURL links ?r3"
        using u Inr digests save Some by (simp add: Let_def)
      moreover have "linkBlock [CalculateHashes u (Inr (m, s)), Stdout (FaviconLine u m s),
                       SaveToDatabase u m s err, Stderr (ErrSavingToDB link err')]"
        using Some by (simp add: linkBlock_def processed_def fetched_def)
      moreover have "hashed [CalculateHashes u (Inr (m, s)), Stdout (FaviconLine u m s),
                       SaveToDatabase u m s err, Stderr (ErrSavingToDB link err')] = [u]"
        by (simp add: hashed_def)
      moreover have "trace ?r3 = trace r @ [CalculateHashes u (Inr (m, s)), Stdout (FaviconLine u m s),
                       SaveToDatabase u m s err, Stderr (ErrSavingToDB link err')]"
        by (simp add: emit_def tick_def)
      ultimately show ?thesis using u by blast
    qed
  qed
qed

lemma linkLoop_completes:
  "\<forall>l \<in> set links. l \<noteq> [] \<Longrightarrow>
     \<exists>r' es. linkLoop e baseURL links r = Inr r' \<and> trace r' = trace r @ es \<and> linkBlock es
            \<and> hashed es = concat (map (resolved baseURL) links)"
proof (induction links arbitrary: r)
  case Nil
  have "linkBlock []" by (simp add: linkBlock_def processed_def fetched_def)
  then show ?case by (auto simp: hashed_def)
next
  case (Cons link links)
  then have "link \<noteq> []" by simp
  from linkLoop_step [OF this, of baseURL r e links]
  obtain r1 es u where u: "resolveLink baseURL link = Inr u"
    and t1: "trace r1 = trace r @ es" and b1: "linkBlock es" and h1: "hashed es = [u]"
    and eq: "linkLoop e baseURL (link # links) r = linkLoop e baseURL links r1"
    by blast
  from Cons.IH [of r1] Cons.prems
  obtain r' es' where r': "linkLoop e baseURL links r1 = Inr r'"
    and t2: "trace r' = trace r1 @ es'" and b2: "linkBlock es'"
    and h2: "hashed es' = concat (map (resolved baseURL) links)"
    by auto
  show ?case
  proof (intro exI conjI)
    show "linkLoop e baseURL (link # links) r = Inr r'" using eq r' by simp
    show "trace r' = trace r @ (es @ es')" using t1 t2 by simp
    show "linkBlock (es @ es')" using b1 b2 by (rule linkBlock_append)
    show "hashed (es @ es') = concat (map (resolved baseURL) (link # links))"
      using h1 h2 u by (simp add: resolved_def)
  qed
qed

lemma urlBlock_append: "urlBlock a us \<Longrightarrow> urlBlock b vs \<Longrightarrow> urlBlock (a @ b) (us @ vs)"
  by (simp add: urlBlock_def reported_append)

lemma urlLoop_step:
  "\<exists>r1 es. trace r1 = trace r @ es \<and> urlBlock es [baseURL]
           \<and> urlLoop e (baseURL # urls) r = urlLoop e urls r1"
proof (cases "fetchHTML (httpGet e (step r) 0) baseURL")
  case (Inl err)
  let ?es = "[Stdout (ProcessingURL baseURL), FetchHTML baseURL (Inl err),
              Stderr (ErrFetchingHTML err)]"
  show ?thesis
  proof (intro exI conjI)
    show "trace (emit ?es (tick r)) = trace r @ ?es" by simp
    show "urlBlock ?es [baseURL]"
      by (simp add: urlBlock_def processed_def hashed_def fetched_def)
    show "urlLoop e (baseURL # urls) r = urlLoop e urls (emit ?es (tick r))"
      using Inl by simp
  qed
next
  case (Inr htmlContent)
  let ?es = "[Stdout (ProcessingURL baseURL), FetchHTML baseURL (Inr htmlContent)]"
  let ?r1 = "emit ?es (tick r)"
  show ?thesis
  proof (cases "extractFaviconLinks htmlContent = []")
    case True
    show ?thesis
    proof (intro exI conjI)
      show "trace (emit [Stdout NoLinksFound] ?r1) = trace r @ (?es @ [Stdout NoLinksFound])"
        by simp
      show "urlBlock (?es @ [Stdout NoLinksFound]) [baseURL]"
        using True
        by (simp add: urlBlock_def processed_def hashed_def fetched_def targets_def)
      show "urlLoop e (baseURL # urls) r = urlLoop e urls (emit [Stdout NoLinksFound] ?r1)"
        using Inr True by (simp add: Let_def)
    qed
  next
    case False
    have "\<forall>l \<in> set (extractFaviconLinks htmlContent). l \<noteq> []"
      using extractFaviconLinks_nonempty by blast
    from linkLoop_completes [OF this, of e baseURL ?r1]
    obtain r2 es2 where r2: "linkLoop e baseURL (extractFaviconLinks htmlContent) ?r1 = Inr r2"
      and t2: "trace r2 = trace ?r1 @ es2" and b2: "linkBlock es2"
      and h2: "hashed es2 = concat (map (resolved baseURL) (extractFaviconLinks htmlContent))"
      by blast
    show ?thesis
    proof (intro exI conjI)
      show "trace r2 = trace r @ (?es @ es2)" using t2 by simp
      have rep: "reported (?es @ es2)"
        by (rule reported_append) (use b2 in \<open>simp_all add: linkBlock_def\<close>)
      have p: "processed (?es @ es2) = [baseURL]"
        using b2 by (simp add: linkBlock_def processed_def)
      have f: "fetched (?es @ es2) = [(baseURL, htmlContent)]"
        using b2 by (simp add: linkBlock_def fetched_def)
      have h: "hashed (?es @ es2) = hashed es2"
        by (simp add: hashed_def)
      show "urlBlock (?es @ es2) [baseURL]"
        unfolding urlBlock_def p f h using rep h2 by (simp add: targets_def)
      show "urlLoop e (baseURL # urls) r = urlLoop e urls r2"
        using Inr False r2 by (simp add: Let_def)
    qed
  qed
qed

lemma urlLoop_completes:
  "\<exists>r' es. urlLoop e urls r = Inr r' \<and> trace r' = trace r @ es \<and> urlBlock es urls"
proof (induction urls arbitrary: r)
  case Nil
  show ?case
    by (rule exI [of _ r], rule exI [of _ "[]"])
       (simp add: urlBlock_def processed_def hashed_def fetched_def)
next
  case (Cons baseURL urls)
  from urlLoop_step [of r baseURL e urls]
  obtain r1 es where t1: "trace r1 = trace r @ es" and b1: "urlBlock es [baseURL]"
    and eq: "urlLoop e (baseURL # urls) r = urlLoop e urls r1"
    by blast
  from Cons.IH [of r1]
  obtain r' es' where r': "urlLoop e urls r1 = Inr r'"
    and t2: "trace r' = trace r1 @ es'" and b2: "urlBlock es' urls"
    by blast
  show ?case
  proof (intro exI conjI)
    show "urlLoop e (baseURL # urls) r = Inr r'" using eq r' by simp
    show "trace r' = trace r @ (es @ es')" using t1 t2 by simp
    show "urlBlock (es @ es') (baseURL # urls)"
      using urlBlock_append [OF b1 b2] by simp
  qed
qed



lemma main_returns: "\<exists>r. main e filename = Inr r"
proof (cases "filename = []")
  case True
  then show ?thesis by (simp add: main_def)
next
  case False
  show ?thesis
  proof (cases "readURLsFromFile (openFile e) filename")
    case (Inl err)
    with False show ?thesis by (simp add: main_def)
  next
    case (Inr urls)
    show ?thesis
    proof (cases "sqlOpen e")
      case (Some err)
      with False Inr show ?thesis by (simp add: main_def)
    next
      case None
      obtain err db where ct: "createTable (dbExec e 0) (diskDB e) = (err, db)"
        by (cases "createTable (dbExec e 0) (diskDB e)")
      show ?thesis
      proof (cases err)
        case (Some err')
        with False Inr None ct show ?thesis by (simp add: main_def Let_def emit_def tick_def)
      next
        case no_err: None
        let ?r2 = "\<lparr>trace = [ReadURLsFromFile filename (Inr urls), SqlOpen None, CreateTable None],
                    step = Suc 0, store = db\<rparr>"
        from urlLoop_completes [of e urls ?r2]
        obtain r3 where "urlLoop e urls ?r2 = Inr r3" by blast
        with False Inr None ct no_err show ?thesis
          by (simp add: main_def Let_def emit_def tick_def)
      qed
    qed
  qed
qed

text \<open>
  Claim C1, as the code has it. The resolver has no guard of its own: on the empty
  Favicon Reference it panics, for every base URL. The empty reference is kept from it
  upstream: every reference the extractor returns is non-empty, so every call of the
  resolver on a reference of a page returns a URL, and no run ends in a panic.
\<close>

theorem resolveLink_never_empty_in_run:
  "(\<forall>link \<in> set (extractFaviconLinks content).
      link \<noteq> [] \<and> (\<exists>url. resolveLink baseURL link = Inr url))
   \<and> main e filename \<noteq> Inl p
   \<and> resolveLink baseURL [] = Inl IndexOutOfRange"
proof (intro conjI ballI)
  fix link assume "link \<in> set (extractFaviconLinks content)"
  then show "link \<noteq> []" by (rule extractFaviconLinks_nonempty)
  then show "\<exists>url. resolveLink baseURL link = Inr url" by (rule resolveLink_nonempty)
next
  from main_returns [of e filename] show "main e filename \<noteq> Inl p" by auto
next
  show "resolveLink baseURL [] = Inl IndexOutOfRange" by (simp add: resolveLink_def)
qed

theorem resolveLink_never_empty_in_run_witness:
  "extractFaviconLinks ''<link rel=\"icon\" href=\"/favicon.ico\">'' = [''/favicon.ico'']
   \<and> ''/favicon.ico'' \<noteq> []
   \<and> resolveLink ''http://example.test'' ''/favicon.ico'' = Inr ''http://example.test/favicon.ico''
   \<and> main env1 ''urls.txt'' \<noteq> Inl IndexOutOfRange"
proof -
  have x: "extractFaviconLinks ''<link rel=\"icon\" href=\"/favicon.ico\">'' = [''/favicon.ico'']"
    by (simp add: extractFaviconLinks_def re_eval)
  from resolveLink_never_empty_in_run
         [of "''<link rel=\"icon\" href=\"/favicon.ico\">''" "''http://example.test''" env1
             "''urls.txt''" IndexOutOfRange] x
  show ?thesis by (simp add: resolveLink_def)
qed

text \<open>
  The claim C1 as stated, the resolver does not crash on the empty reference, fails: both
  prefix tests fail on it and \<^verbatim>\<open>link[0]\<close> panics.
\<close>

theorem resolveLink_empty_counterexample:
  "resolveLink ''http://a.com'' [] = Inl IndexOutOfRange"
  by (simp add: resolveLink_def)

text \<open>
  Claim C8. When the flag is not given (\<^verbatim>\<open>filename\<close> is empty), the run writes the usage
  line and ends: it reads no file, opens no store, fetches nothing and leaves the database
  as it found it.
\<close>

theorem main_without_flag:
  "main e [] = Inr \<lparr>trace = [Stdout Usage], step = 0, store = diskDB e\<rparr>"
  by (simp add: main_def emit_def)



end
